theory Spec2Isabelle
  imports Main "HOL-Library.Signed_Division"
begin

section \<open>Errors and BigInt arithmetic\<close>

text \<open>
  The math core of \<^verbatim>\<open>dist/index.js\<close> works on JavaScript BigInt values, modelled as
  \<^typ>\<open>int\<close>.  A thrown error is a value: the constructors below are the messages of
  \<^verbatim>\<open>_require\<close> (\<^verbatim>\<open>'Errors.ZERO_DIVISION'\<close>, ...), the codes of \<^verbatim>\<open>BalancerErrorCode\<close>
  that the price-impact classes throw, and the two errors the JavaScript runtime itself
  raises on BigInt operands: \<^verbatim>\<open>RangeError\<close> (division by zero, negative exponent) and
  \<^verbatim>\<open>TypeError\<close> (an \<^verbatim>\<open>undefined\<close> operand, read past the end of an array).
\<close>

datatype error =
    ADD_OVERFLOW
  | SUB_OVERFLOW
  | MUL_OVERFLOW
  | ZERO_DIVISION
  | DIV_INTERNAL
  | X_OUT_OF_BOUNDS
  | Y_OUT_OF_BOUNDS
  | PRODUCT_OUT_OF_BOUNDS
  | INVALID_EXPONENT
  | STABLE_INVARIANT_DIDNT_CONVERGE
  | INPUT_LENGTH_MISMATCH
  | MISSING_DECIMALS
  | MISSING_AMP
  | MISSING_PRICE_RATE
  | RangeError
  | TypeError

type_synonym 'a result = "error + 'a"

text \<open>Sequencing of two computations that may throw: the first error wins.\<close>

definition andThen :: "'a result \<Rightarrow> ('a \<Rightarrow> 'b result) \<Rightarrow> 'b result" where
  "andThen r f = (case r of Inl e \<Rightarrow> Inl e | Inr v \<Rightarrow> f v)"

text \<open>
  BigInt \<^verbatim>\<open>/\<close> truncates towards zero (\<^term>\<open>(sdiv)\<close> on \<^typ>\<open>int\<close>) and \<^verbatim>\<open>%\<close> takes the
  sign of the dividend (\<^term>\<open>(smod)\<close>).  With a zero divisor both throw a RangeError;
  \<^verbatim>\<open>**\<close> throws a RangeError on a negative exponent.
\<close>

definition bigint_div :: "int \<Rightarrow> int \<Rightarrow> int result" where
  "bigint_div a b = (if b = 0 then Inl RangeError else Inr (a sdiv b))"

definition bigint_pow :: "int \<Rightarrow> int \<Rightarrow> int result" where
  "bigint_pow b e = (if e < 0 then Inl RangeError else Inr (b ^ nat e))"

definition BZERO :: int where "BZERO = 0"
definition BONE :: int where "BONE = 1"
definition ONE :: int where "ONE = 1000000000000000000"

section \<open>Scaling factors\<close>

definition computeScalingFactor :: "int \<Rightarrow> int result" where
  "computeScalingFactor tokenDecimals =
     (let decimalsDifference = 18 - tokenDecimals
      in andThen (bigint_pow 10 decimalsDifference) (\<lambda>p. Inr (ONE * p)))"

section \<open>SolidityMaths\<close>

definition SolidityMaths_add :: "int \<Rightarrow> int \<Rightarrow> int result" where
  "SolidityMaths_add a b =
     (let c = a + b
      in if (b \<ge> 0 \<and> c \<ge> a) \<or> (b < 0 \<and> c < a) then Inr c else Inl ADD_OVERFLOW)"

definition SolidityMaths_sub :: "int \<Rightarrow> int \<Rightarrow> int result" where
  "SolidityMaths_sub a b = (if b \<le> a then Inr (a - b) else Inl SUB_OVERFLOW)"

definition SolidityMaths_mul :: "int \<Rightarrow> int \<Rightarrow> int result" where
  "SolidityMaths_mul a b =
     (let c = a * b
      in if a = BZERO \<or> c sdiv a = b then Inr c else Inl MUL_OVERFLOW)"

definition SolidityMaths_divDown :: "int \<Rightarrow> int \<Rightarrow> int result" where
  "SolidityMaths_divDown a b = (if b \<noteq> BZERO then Inr (a sdiv b) else Inl ZERO_DIVISION)"

definition SolidityMaths_divUp :: "int \<Rightarrow> int \<Rightarrow> int result" where
  "SolidityMaths_divUp a b =
     (if b \<noteq> BZERO
      then (if a = BZERO then Inr BZERO else Inr (BONE + (a - BONE) sdiv b))
      else Inl ZERO_DIVISION)"

definition SolidityMaths_div :: "int \<Rightarrow> int \<Rightarrow> bool \<Rightarrow> int result" where
  "SolidityMaths_div a b roundUp =
     (if roundUp then SolidityMaths_divUp a b else SolidityMaths_divDown a b)"

definition mulUpFixed :: "int \<Rightarrow> int \<Rightarrow> int result" where
  "mulUpFixed a b =
     (let product = a * b
      in if a = BZERO \<or> product sdiv a = b
         then (if product = BZERO then Inr BZERO else Inr ((product - BONE) sdiv ONE + BONE))
         else Inl MUL_OVERFLOW)"

definition divDownFixed :: "int \<Rightarrow> int \<Rightarrow> int result" where
  "divDownFixed a b =
     (if b \<noteq> BZERO
      then (if a = BZERO then Inr BZERO
            else (let aInflated = a * ONE in Inr (aInflated sdiv b)))
      else Inl ZERO_DIVISION)"

definition divUpFixed :: "int \<Rightarrow> int \<Rightarrow> int result" where
  "divUpFixed a b =
     (if b \<noteq> BZERO
      then (if a = BZERO then Inr BZERO
            else (let aInflated = a * ONE
                  in if aInflated sdiv a = ONE
                     then Inr ((aInflated - BONE) sdiv b + BONE)
                     else Inl DIV_INTERNAL))
      else Inl ZERO_DIVISION)"

definition complementFixed :: "int \<Rightarrow> int" where
  "complementFixed x = (if x < ONE then ONE - x else BZERO)"

definition mulDownFixed :: "int \<Rightarrow> int \<Rightarrow> int result" where
  "mulDownFixed a b =
     (let product = a * b
      in if a = BZERO \<or> product sdiv a = b then Inr (product sdiv ONE) else Inl MUL_OVERFLOW)"

definition upscale :: "int \<Rightarrow> int \<Rightarrow> int result" where
  "upscale amount scalingFactor = mulDownFixed amount scalingFactor"

section \<open>LogExpMath\<close>

text \<open>
  The class \<^verbatim>\<open>LogExpMath\<close>.  Each unrolled source statement is one application of a
  small step function, in the order of the source:
  \<^item> \<open>exp_first\<close> is the \<^verbatim>\<open>if (x >= x0) ... else if (x >= x1) ... else\<close> choice of
    \<^verbatim>\<open>firstAN\<close>;
  \<^item> \<open>exp_reduce xn an\<close> is \<^verbatim>\<open>if (x >= xn) { x -= xn; product = product * an / ONE_20 }\<close>;
  \<^item> \<open>exp_taylor x n\<close> is \<^verbatim>\<open>term = term * x / ONE_20 / n; seriesSum += term\<close>;
  \<^item> \<open>ln_36_term\<close> and \<open>ln_term\<close> are \<^verbatim>\<open>num = num * z_squared / ONE; seriesSum += num / d\<close>;
  \<^item> \<open>ln_first\<close> is \<^verbatim>\<open>if (a >= an * ONE_18) { a /= an; sum += xn }\<close> and \<open>ln_reduce\<close> is
    \<^verbatim>\<open>if (a >= an) { a = a * ONE_20 / an; sum += xn }\<close>.
  Divisions by a constant are \<^term>\<open>(sdiv)\<close>; divisions by a computed value are
  \<open>bigint_div\<close>, which throws on zero.
\<close>

definition ONE_18 :: int where "ONE_18 = 1000000000000000000"
definition ONE_20 :: int where "ONE_20 = 100000000000000000000"
definition ONE_36 :: int where "ONE_36 = 1000000000000000000000000000000000000"
definition MAX_NATURAL_EXPONENT :: int where "MAX_NATURAL_EXPONENT = 130000000000000000000"
definition MIN_NATURAL_EXPONENT :: int where "MIN_NATURAL_EXPONENT = - 41000000000000000000"
definition LN_36_LOWER_BOUND :: int where "LN_36_LOWER_BOUND = ONE_18 - 100000000000000000"
definition LN_36_UPPER_BOUND :: int where "LN_36_UPPER_BOUND = ONE_18 + 100000000000000000"
definition MILD_EXPONENT_BOUND :: int where "MILD_EXPONENT_BOUND = 2 ^ 254 sdiv ONE_20"
definition x0 :: int where "x0 = 128000000000000000000"
definition a0 :: int where "a0 = 38877084059945950922200000000000000000000000000000000000"
definition x1 :: int where "x1 = 64000000000000000000"
definition a1 :: int where "a1 = 6235149080811616882910000000"
definition x2 :: int where "x2 = 3200000000000000000000"
definition a2 :: int where "a2 = 7896296018268069516100000000000000"
definition x3 :: int where "x3 = 1600000000000000000000"
definition a3 :: int where "a3 = 888611052050787263676000000"
definition x4 :: int where "x4 = 800000000000000000000"
definition a4 :: int where "a4 = 298095798704172827474000"
definition x5 :: int where "x5 = 400000000000000000000"
definition a5 :: int where "a5 = 5459815003314423907810"
definition x6 :: int where "x6 = 200000000000000000000"
definition a6 :: int where "a6 = 738905609893065022723"
definition x7 :: int where "x7 = 100000000000000000000"
definition a7 :: int where "a7 = 271828182845904523536"
definition x8 :: int where "x8 = 50000000000000000000"
definition a8 :: int where "a8 = 164872127070012814685"
definition x9 :: int where "x9 = 25000000000000000000"
definition a9 :: int where "a9 = 128402541668774148407"
definition x10 :: int where "x10 = 12500000000000000000"
definition a10 :: int where "a10 = 113314845306682631683"
definition x11 :: int where "x11 = 6250000000000000000"
definition a11 :: int where "a11 = 106449445891785942956"

definition exp_first :: "int \<Rightarrow> int \<times> int" where
  "exp_first x =
     (if x \<ge> x0 then (x - x0, a0)
      else if x \<ge> x1 then (x - x1, a1)
      else (x, 1))"

definition exp_reduce :: "int \<Rightarrow> int \<Rightarrow> int \<times> int \<Rightarrow> int \<times> int" where
  "exp_reduce xn an = (\<lambda>(x, product).
     if x \<ge> xn then (x - xn, (product * an) sdiv ONE_20) else (x, product))"

definition exp_taylor :: "int \<Rightarrow> int \<Rightarrow> int \<times> int \<Rightarrow> int \<times> int" where
  "exp_taylor x n = (\<lambda>(term, seriesSum).
     (((term * x) sdiv ONE_20) sdiv n, seriesSum + ((term * x) sdiv ONE_20) sdiv n))"

definition exp_series :: "int \<Rightarrow> int" where
  "exp_series x =
     snd (exp_taylor x 12 (exp_taylor x 11 (exp_taylor x 10 (exp_taylor x 9
         (exp_taylor x 8 (exp_taylor x 7 (exp_taylor x 6 (exp_taylor x 5
         (exp_taylor x 4 (exp_taylor x 3 (exp_taylor x 2 (x, ONE_20 + x))))))))))))"

definition exp_positive :: "int \<Rightarrow> int" where
  "exp_positive x =
     (case exp_first x of (x, firstAN) \<Rightarrow>
      case exp_reduce x9 a9 (exp_reduce x8 a8 (exp_reduce x7 a7 (exp_reduce x6 a6
          (exp_reduce x5 a5 (exp_reduce x4 a4 (exp_reduce x3 a3 (exp_reduce x2 a2
          (x * 100, ONE_20)))))))) of (x, product) \<Rightarrow>
      (((product * exp_series x) sdiv ONE_20) * firstAN) sdiv 100)"

text \<open>
  \<^verbatim>\<open>exp\<close> calls itself once, on \<open>- x\<close>, when \<open>x\<close> is negative.
\<close>

function LogExpMath_exp :: "int \<Rightarrow> int result" where
  "LogExpMath_exp x =
     (if x \<ge> MIN_NATURAL_EXPONENT \<and> x \<le> MAX_NATURAL_EXPONENT
      then (if x < 0
            then andThen (LogExpMath_exp (- 1 * x)) (bigint_div (ONE_18 * ONE_18))
            else Inr (exp_positive x))
      else Inl INVALID_EXPONENT)"
  by pat_completeness auto

termination
  by (relation "measure (\<lambda>x. if x < 0 then 1 else 0)") auto

declare LogExpMath_exp.simps [simp del]

definition ln_36_term :: "int \<Rightarrow> int \<Rightarrow> int \<times> int \<Rightarrow> int \<times> int" where
  "ln_36_term z_squared d = (\<lambda>(num, seriesSum).
     ((num * z_squared) sdiv ONE_36, seriesSum + ((num * z_squared) sdiv ONE_36) sdiv d))"

definition ln_36_series :: "int \<Rightarrow> int result" where
  "ln_36_series z =
     Inr (snd (ln_36_term ((z * z) sdiv ONE_36) 15 (ln_36_term ((z * z) sdiv ONE_36) 13
         (ln_36_term ((z * z) sdiv ONE_36) 11 (ln_36_term ((z * z) sdiv ONE_36) 9
         (ln_36_term ((z * z) sdiv ONE_36) 7 (ln_36_term ((z * z) sdiv ONE_36) 5
         (ln_36_term ((z * z) sdiv ONE_36) 3 (z, z)))))))) * 2)"

definition ln_36 :: "int \<Rightarrow> int result" where
  "ln_36 x =
     andThen (bigint_div ((x * ONE_18 - ONE_36) * ONE_36) (x * ONE_18 + ONE_36)) ln_36_series"

definition ln_first :: "int \<Rightarrow> int \<Rightarrow> int \<times> int \<Rightarrow> int \<times> int" where
  "ln_first an xn = (\<lambda>(a, sm).
     if a \<ge> an * ONE_18 then (a sdiv an, sm + xn) else (a, sm))"

definition ln_reduce :: "int \<Rightarrow> int \<Rightarrow> int \<times> int \<Rightarrow> int \<times> int" where
  "ln_reduce an xn = (\<lambda>(a, sm).
     if a \<ge> an then ((a * ONE_20) sdiv an, sm + xn) else (a, sm))"

definition ln_term :: "int \<Rightarrow> int \<Rightarrow> int \<times> int \<Rightarrow> int \<times> int" where
  "ln_term z_squared d = (\<lambda>(num, seriesSum).
     ((num * z_squared) sdiv ONE_20, seriesSum + ((num * z_squared) sdiv ONE_20) sdiv d))"

definition ln_series :: "int \<Rightarrow> int \<Rightarrow> int result" where
  "ln_series sm z =
     Inr ((sm + snd (ln_term ((z * z) sdiv ONE_20) 11 (ln_term ((z * z) sdiv ONE_20) 9
         (ln_term ((z * z) sdiv ONE_20) 7 (ln_term ((z * z) sdiv ONE_20) 5
         (ln_term ((z * z) sdiv ONE_20) 3 (z, z)))))) * 2) sdiv 100)"

definition ln_positive :: "int \<Rightarrow> int result" where
  "ln_positive a =
     (case ln_first a1 x1 (ln_first a0 x0 (a, BZERO)) of (a, sm) \<Rightarrow>
      case ln_reduce a11 x11 (ln_reduce a10 x10 (ln_reduce a9 x9 (ln_reduce a8 x8
          (ln_reduce a7 x7 (ln_reduce a6 x6 (ln_reduce a5 x5 (ln_reduce a4 x4
          (ln_reduce a3 x3 (ln_reduce a2 x2 (a * 100, sm * 100)))))))))) of (a, sm) \<Rightarrow>
      andThen (bigint_div ((a - ONE_20) * ONE_20) (a + ONE_20)) (ln_series sm))"

text \<open>
  \<^verbatim>\<open>_ln\<close> calls itself on \<open>ONE_18 * ONE_18 / a\<close> whenever \<open>a < ONE_18\<close>.  For
  \<open>0 < a\<close> the argument of that call is at least \<open>ONE_18\<close> and the recursion ends; for
  \<open>a = 0\<close> the division throws; for \<open>a < 0\<close> the source recurses without end.  The
  function is therefore partial: \<open>None\<close> is a call that never returns, and the results
  of \<^verbatim>\<open>pow\<close> and \<^verbatim>\<open>powUpFixed\<close>, which call it, carry the same option.
\<close>

definition andThenO :: "'a result option \<Rightarrow> ('a \<Rightarrow> 'b result option) \<Rightarrow> 'b result option" where
  "andThenO r f = (case r of None \<Rightarrow> None | Some (Inl e) \<Rightarrow> Some (Inl e) | Some (Inr v) \<Rightarrow> f v)"

partial_function (option) LogExpMath_ln :: "int \<Rightarrow> int result option" where
  "LogExpMath_ln a =
     (if a < ONE_18
      then (if a = 0 then Some (Inl RangeError)
            else Option.bind (LogExpMath_ln ((ONE_18 * ONE_18) sdiv a))
                   (\<lambda>r. Some (andThen r (\<lambda>v. Inr (- 1 * v)))))
      else Some (ln_positive a))"

declare LogExpMath_ln.simps [code]

definition pow_exp :: "int \<Rightarrow> int result option" where
  "pow_exp logx_times_y =
     (if MIN_NATURAL_EXPONENT \<le> logx_times_y sdiv ONE_18
         \<and> logx_times_y sdiv ONE_18 \<le> MAX_NATURAL_EXPONENT
      then Some (LogExpMath_exp (logx_times_y sdiv ONE_18))
      else Some (Inl PRODUCT_OUT_OF_BOUNDS))"

definition LogExpMath_pow :: "int \<Rightarrow> int \<Rightarrow> int result option" where
  "LogExpMath_pow x y =
     (if y = BZERO then Some (Inr ONE_18)
      else if x = BZERO then Some (Inr BZERO)
      else if \<not> x < 57896044618658097711785492504343953926634992332820282019728792003956564819968
        then Some (Inl X_OUT_OF_BOUNDS)
      else if \<not> y < MILD_EXPONENT_BOUND then Some (Inl Y_OUT_OF_BOUNDS)
      else andThenO
        (if LN_36_LOWER_BOUND < x \<and> x < LN_36_UPPER_BOUND
         then Some (andThen (ln_36 x) (\<lambda>ln_36_x.
                Inr ((ln_36_x sdiv ONE_18) * y + ((ln_36_x smod ONE_18) * y) sdiv ONE_18)))
         else andThenO (LogExpMath_ln x) (\<lambda>ln_x. Some (Inr (ln_x * y))))
        pow_exp)"

definition MAX_POW_RELATIVE_ERROR :: int where "MAX_POW_RELATIVE_ERROR = 10000"

definition powUpFixed :: "int \<Rightarrow> int \<Rightarrow> int result option" where
  "powUpFixed x y =
     andThenO (LogExpMath_pow x y) (\<lambda>raw.
       Some (andThen (andThen (mulUpFixed raw MAX_POW_RELATIVE_ERROR) (\<lambda>m. SolidityMaths_add m BONE))
              (SolidityMaths_add raw)))"

section \<open>Stable invariant\<close>

text \<open>
  \<^verbatim>\<open>_calculateInvariant(amp, balances, roundUp)\<close>.  \<open>calc_P_D\<close> is the inner loop over
  \<open>j = 1 .. numTokens - 1\<close>, started at \<open>balances[0] * numTokens\<close>; \<open>invariant_update\<close> is
  the assignment to \<^verbatim>\<open>invariant\<close>, its operands evaluated from left to right;
  \<open>invariant_step\<close> is one pass of the outer loop body up to that assignment (reading
  \<^verbatim>\<open>balances[0]\<close> of an empty array gives \<^verbatim>\<open>undefined\<close>, whose product with a BigInt is a
  TypeError); \<open>invariant_loop n\<close> is the outer loop with \<open>n\<close> passes left, including the
  convergence test, and falls through to the final \<^verbatim>\<open>throw\<close> when no pass is left.
\<close>

definition AMP_PRECISION :: int where "AMP_PRECISION = 1000"

fun calc_P_D :: "int \<Rightarrow> int \<Rightarrow> bool \<Rightarrow> int list \<Rightarrow> int \<Rightarrow> int result" where
  "calc_P_D numTokens invariant roundUp [] P_D = Inr P_D"
| "calc_P_D numTokens invariant roundUp (b # bs) P_D =
     andThen (SolidityMaths_mul P_D b) (\<lambda>m1.
     andThen (SolidityMaths_mul m1 numTokens) (\<lambda>m2.
     andThen (SolidityMaths_div m2 invariant roundUp)
       (calc_P_D numTokens invariant roundUp bs)))"

definition invariant_update :: "int \<Rightarrow> int \<Rightarrow> int \<Rightarrow> bool \<Rightarrow> int \<Rightarrow> int \<Rightarrow> int result" where
  "invariant_update numTokens ampTimesTotal sm roundUp invariant P_D =
     andThen (SolidityMaths_mul numTokens invariant) (\<lambda>n1.
     andThen (SolidityMaths_mul n1 invariant) (\<lambda>n2.
     andThen (SolidityMaths_mul ampTimesTotal sm) (\<lambda>n3.
     andThen (SolidityMaths_mul n3 P_D) (\<lambda>n4.
     andThen (SolidityMaths_div n4 AMP_PRECISION roundUp) (\<lambda>n5.
     andThen (SolidityMaths_mul (numTokens + 1) invariant) (\<lambda>d1.
     andThen (SolidityMaths_mul (ampTimesTotal - AMP_PRECISION) P_D) (\<lambda>d2.
     andThen (SolidityMaths_div d2 AMP_PRECISION (\<not> roundUp)) (\<lambda>d3.
     SolidityMaths_div (n2 + n5) (d1 + d3) roundUp))))))))"

definition invariant_step :: "int \<Rightarrow> int list \<Rightarrow> bool \<Rightarrow> int \<Rightarrow> int result" where
  "invariant_step amp balances roundUp invariant =
     (case balances of
        [] \<Rightarrow> Inl TypeError
      | b0 # rest \<Rightarrow>
          andThen (calc_P_D (int (length balances)) invariant roundUp rest
                     (b0 * int (length balances)))
            (invariant_update (int (length balances)) (amp * int (length balances))
               (sum_list balances) roundUp invariant))"

fun invariant_loop :: "nat \<Rightarrow> int \<Rightarrow> int list \<Rightarrow> bool \<Rightarrow> int \<Rightarrow> int result" where
  "invariant_loop 0 amp balances roundUp invariant = Inl STABLE_INVARIANT_DIDNT_CONVERGE"
| "invariant_loop (Suc k) amp balances roundUp prevInvariant =
     andThen (invariant_step amp balances roundUp prevInvariant) (\<lambda>invariant.
       if invariant > prevInvariant
       then (if invariant - prevInvariant \<le> 1 then Inr invariant
             else invariant_loop k amp balances roundUp invariant)
       else (if prevInvariant - invariant \<le> 1 then Inr invariant
             else invariant_loop k amp balances roundUp invariant))"

definition calculateInvariant :: "int \<Rightarrow> int list \<Rightarrow> bool \<Rightarrow> int result" where
  "calculateInvariant amp balances roundUp =
     (if sum_list balances = BZERO then Inr BZERO
      else invariant_loop 255 amp balances roundUp (sum_list balances))"

text \<open>
  The sequence of iterates the specification speaks about: \<open>iterate \<dots> k\<close> is the value of
  \<^verbatim>\<open>invariant\<close> after \<open>k\<close> updates, starting from the sum of the balances, or the error
  of the first update that throws.  \<open>iterate_from\<close> is the same sequence from an arbitrary
  start.  Two consecutive iterates are \<open>within_one\<close> when both exist and differ by at most
  one unit, and \<open>apart\<close> when both exist and differ by more than one.
\<close>

fun iterate :: "int \<Rightarrow> int list \<Rightarrow> bool \<Rightarrow> nat \<Rightarrow> int result" where
  "iterate amp balances roundUp 0 = Inr (sum_list balances)"
| "iterate amp balances roundUp (Suc k) =
     andThen (iterate amp balances roundUp k) (invariant_step amp balances roundUp)"

fun iterate_from :: "int \<Rightarrow> int list \<Rightarrow> bool \<Rightarrow> int \<Rightarrow> nat \<Rightarrow> int result" where
  "iterate_from amp balances roundUp D 0 = Inr D"
| "iterate_from amp balances roundUp D (Suc k) =
     andThen (iterate_from amp balances roundUp D k) (invariant_step amp balances roundUp)"

definition within_one :: "int result \<Rightarrow> int result \<Rightarrow> bool" where
  "within_one a b = (case (a, b) of (Inr u, Inr v) \<Rightarrow> \<bar>v - u\<bar> \<le> 1 | _ \<Rightarrow> False)"

definition apart :: "int result \<Rightarrow> int result \<Rightarrow> bool" where
  "apart a b = (case (a, b) of (Inr u, Inr v) \<Rightarrow> \<bar>v - u\<bar> > 1 | _ \<Rightarrow> False)"

text \<open>
  The same update with a record of the \<^verbatim>\<open>roundUp\<close> argument of every call of
  \<^verbatim>\<open>SolidityMaths.div\<close>, in call order.  A logged computation is the list of directions
  passed so far together with the result; \<open>logged_div\<close> appends the direction it is
  called with, whether or not the division throws.
\<close>

type_synonym 'a logged = "bool list \<times> 'a result"

definition unlogged :: "'a result \<Rightarrow> 'a logged" where
  "unlogged r = ([], r)"

definition logged_div :: "int \<Rightarrow> int \<Rightarrow> bool \<Rightarrow> int logged" where
  "logged_div a b roundUp = ([roundUp], SolidityMaths_div a b roundUp)"

definition andThenL :: "'a logged \<Rightarrow> ('a \<Rightarrow> 'b logged) \<Rightarrow> 'b logged" where
  "andThenL m f =
     (case snd m of
        Inl e \<Rightarrow> (fst m, Inl e)
      | Inr v \<Rightarrow> (fst m @ fst (f v), snd (f v)))"

fun calc_P_D_logged :: "int \<Rightarrow> int \<Rightarrow> bool \<Rightarrow> int list \<Rightarrow> int \<Rightarrow> int logged" where
  "calc_P_D_logged numTokens invariant roundUp [] P_D = unlogged (Inr P_D)"
| "calc_P_D_logged numTokens invariant roundUp (b # bs) P_D =
     andThenL (unlogged (SolidityMaths_mul P_D b)) (\<lambda>m1.
     andThenL (unlogged (SolidityMaths_mul m1 numTokens)) (\<lambda>m2.
     andThenL (logged_div m2 invariant roundUp)
       (calc_P_D_logged numTokens invariant roundUp bs)))"

definition invariant_update_logged ::
    "int \<Rightarrow> int \<Rightarrow> int \<Rightarrow> bool \<Rightarrow> int \<Rightarrow> int \<Rightarrow> int logged" where
  "invariant_update_logged numTokens ampTimesTotal sm roundUp invariant P_D =
     andThenL (unlogged (SolidityMaths_mul numTokens invariant)) (\<lambda>n1.
     andThenL (unlogged (SolidityMaths_mul n1 invariant)) (\<lambda>n2.
     andThenL (unlogged (SolidityMaths_mul ampTimesTotal sm)) (\<lambda>n3.
     andThenL (unlogged (SolidityMaths_mul n3 P_D)) (\<lambda>n4.
     andThenL (logged_div n4 AMP_PRECISION roundUp) (\<lambda>n5.
     andThenL (unlogged (SolidityMaths_mul (numTokens + 1) invariant)) (\<lambda>d1.
     andThenL (unlogged (SolidityMaths_mul (ampTimesTotal - AMP_PRECISION) P_D)) (\<lambda>d2.
     andThenL (logged_div d2 AMP_PRECISION (\<not> roundUp)) (\<lambda>d3.
     logged_div (n2 + n5) (d1 + d3) roundUp))))))))"

definition invariant_step_logged :: "int \<Rightarrow> int list \<Rightarrow> bool \<Rightarrow> int \<Rightarrow> int logged" where
  "invariant_step_logged amp balances roundUp invariant =
     (case balances of
        [] \<Rightarrow> unlogged (Inl TypeError)
      | b0 # rest \<Rightarrow>
          andThenL (calc_P_D_logged (int (length balances)) invariant roundUp rest
                      (b0 * int (length balances)))
            (invariant_update_logged (int (length balances)) (amp * int (length balances))
               (sum_list balances) roundUp invariant))"

section \<open>Spot price\<close>

text \<open>
  \<^verbatim>\<open>bptSpotPrice(amp, balances, bptSupply, tokenIndexIn)\<close>.  \<open>spot_loop\<close> is the loop
  accumulating \<open>S\<close> and \<open>D_P\<close>; \<open>nth_defined\<close> reads an array element, and reading
  past the end gives \<^verbatim>\<open>undefined\<close>, which throws a TypeError once it meets a BigInt
  operator.
\<close>

fun spot_loop :: "int \<Rightarrow> int \<Rightarrow> nat \<Rightarrow> nat \<Rightarrow> int list \<Rightarrow> int \<times> int \<Rightarrow> (int \<times> int) result" where
  "spot_loop totalCoins D tokenIndexIn i [] (S, D_P) = Inr (S, D_P)"
| "spot_loop totalCoins D tokenIndexIn i (b # bs) (S, D_P) =
     (if i \<noteq> tokenIndexIn
      then andThen (bigint_div (D_P * D) (totalCoins * b)) (\<lambda>D_P'.
             spot_loop totalCoins D tokenIndexIn (Suc i) bs (S + b, D_P'))
      else spot_loop totalCoins D tokenIndexIn (Suc i) bs (S, D_P))"

definition nth_defined :: "'a list \<Rightarrow> nat \<Rightarrow> 'a result" where
  "nth_defined xs i = (if i < length xs then Inr (xs ! i) else Inl TypeError)"

definition spot_answer :: "int \<Rightarrow> int list \<Rightarrow> int \<Rightarrow> nat \<Rightarrow> int \<Rightarrow> int \<times> int \<Rightarrow> int result" where
  "spot_answer amp balances bptSupply tokenIndexIn D = (\<lambda>(S, D_P).
     andThen (nth_defined balances tokenIndexIn) (\<lambda>x.
       let totalCoins = int (length balances);
           alpha = amp * totalCoins;
           beta = alpha * S;
           gamma = AMP_PRECISION - alpha;
           partial_x = 2 * alpha * x + beta + gamma * D;
           minus_partial_D = D_P * (totalCoins + 1) * AMP_PRECISION - gamma * x
       in andThen (bigint_div (partial_x * bptSupply) minus_partial_D) (\<lambda>q. divUpFixed q D)))"

definition bptSpotPrice :: "int \<Rightarrow> int list \<Rightarrow> int \<Rightarrow> nat \<Rightarrow> int result" where
  "bptSpotPrice amp balances bptSupply tokenIndexIn =
     andThen (calculateInvariant amp balances True) (\<lambda>D.
     andThen (bigint_div D (int (length balances))) (\<lambda>D_P.
     andThen (spot_loop (int (length balances)) D tokenIndexIn 0 balances (BZERO, D_P))
       (spot_answer amp balances bptSupply tokenIndexIn D)))"

section \<open>Pool snapshots and price impact\<close>

text \<open>
  A pool snapshot.  The decimal strings of the snapshot (\<^verbatim>\<open>balance\<close>, \<^verbatim>\<open>priceRate\<close>,
  \<^verbatim>\<open>amp\<close>, \<^verbatim>\<open>totalShares\<close>) are converted by \<^verbatim>\<open>parseFixed\<close> of an external library;
  the fields below hold the integers it returns, and \<open>None\<close> stands for a field that is
  absent (or an empty string), which is what the truthiness tests of \<^verbatim>\<open>parsePoolInfo\<close>
  look at.  \<^verbatim>\<open>decimals\<close> is a number, and the test \<^verbatim>\<open>token.decimals ? \<dots> : undefined\<close>
  also treats \<open>0\<close> as absent.
\<close>

record token =
  token_address :: string
  token_decimals :: "int option"
  token_balance :: int
  token_priceRate :: "int option"

record pool =
  pool_address :: string
  pool_tokensList :: "string list"
  pool_tokens :: "token list"
  pool_amp :: "int option"
  pool_totalShares :: int

definition parsedDecimals :: "pool \<Rightarrow> int option list" where
  "parsedDecimals p =
     map (\<lambda>t. case token_decimals t of
                 None \<Rightarrow> None
               | Some d \<Rightarrow> if d = 0 then None else Some d) (pool_tokens p)"

definition parsedBalances :: "pool \<Rightarrow> int list" where
  "parsedBalances p = map token_balance (pool_tokens p)"

definition parsedPriceRates :: "pool \<Rightarrow> int option list" where
  "parsedPriceRates p = map token_priceRate (pool_tokens p)"

definition parsedAmp :: "pool \<Rightarrow> int option" where
  "parsedAmp p = pool_amp p"

definition parsedTotalShares :: "pool \<Rightarrow> int" where
  "parsedTotalShares p = pool_totalShares p"

text \<open>
  The three \<^verbatim>\<open>bptZeroPriceImpact\<close> methods.  \<open>traverse f\<close> is \<^verbatim>\<open>Array.map\<close> with a
  callback that may throw, \<open>present e\<close> is the test \<^verbatim>\<open>if (!v) throw new BalancerError(e)\<close>,
  \<open>sum_terms\<close> is the final loop adding \<^verbatim>\<open>newTerm\<close>, \<open>findIndex\<close> and \<open>splice1\<close> are
  \<^verbatim>\<open>Array.findIndex\<close> and \<^verbatim>\<open>Array.splice(start, 1)\<close>.
\<close>

fun traverse :: "('a \<Rightarrow> 'b result) \<Rightarrow> 'a list \<Rightarrow> 'b list result" where
  "traverse f [] = Inr []"
| "traverse f (x # xs) =
     andThen (f x) (\<lambda>y. andThen (traverse f xs) (\<lambda>ys. Inr (y # ys)))"

definition present :: "error \<Rightarrow> 'a option \<Rightarrow> 'a result" where
  "present e v = (case v of None \<Rightarrow> Inl e | Some x \<Rightarrow> Inr x)"

fun sum_terms :: "(nat \<Rightarrow> int result) \<Rightarrow> nat list \<Rightarrow> int \<Rightarrow> int result" where
  "sum_terms newTerm [] bptZeroPriceImpact = Inr bptZeroPriceImpact"
| "sum_terms newTerm (i # rest) bptZeroPriceImpact =
     andThen (newTerm i) (\<lambda>t. sum_terms newTerm rest (bptZeroPriceImpact + t))"

fun findIndex :: "('a \<Rightarrow> bool) \<Rightarrow> 'a list \<Rightarrow> int" where
  "findIndex P [] = - 1"
| "findIndex P (x # xs) =
     (if P x then 0 else if findIndex P xs < 0 then - 1 else findIndex P xs + 1)"

definition splice1 :: "int \<Rightarrow> 'a list \<Rightarrow> 'a list" where
  "splice1 start xs =
     (let len = int (length xs);
          actualStart = (if start < 0 then max (len + start) 0 else min start len)
      in take (nat actualStart) xs @ drop (nat actualStart + 1) xs)"

definition stable_term :: "int \<Rightarrow> int list \<Rightarrow> int \<Rightarrow> int list \<Rightarrow> int list \<Rightarrow> nat \<Rightarrow> int result" where
  "stable_term amp balances totalShares decimals tokenAmounts i =
     andThen (bptSpotPrice amp balances totalShares i) (\<lambda>price.
     andThen (nth_defined decimals i) (\<lambda>d.
     andThen (computeScalingFactor d) (\<lambda>scalingFactor.
     andThen (nth_defined tokenAmounts i) (\<lambda>amount.
     andThen (upscale amount scalingFactor) (\<lambda>amountUpscaled.
     Inr ((price * amountUpscaled) sdiv ONE))))))"

definition StablePoolPriceImpact_bptZeroPriceImpact :: "pool \<Rightarrow> int list \<Rightarrow> int result" where
  "StablePoolPriceImpact_bptZeroPriceImpact p tokenAmounts =
     (if length tokenAmounts \<noteq> length (pool_tokensList p) then Inl INPUT_LENGTH_MISMATCH
      else
        andThen (traverse (present MISSING_DECIMALS) (parsedDecimals p)) (\<lambda>decimals.
        andThen (present MISSING_PRICE_RATE (parsedAmp p)) (\<lambda>amp.
        andThen (traverse computeScalingFactor decimals) (\<lambda>scalingFactors.
        andThen (traverse (\<lambda>(balance, sf). upscale balance sf)
                   (zip (parsedBalances p) scalingFactors)) (\<lambda>balances.
        sum_terms (stable_term amp balances (parsedTotalShares p) decimals tokenAmounts)
          [0..<length balances] BZERO)))))"

definition rated_term ::
    "int \<Rightarrow> int list \<Rightarrow> int \<Rightarrow> int list \<Rightarrow> int list \<Rightarrow> int list \<Rightarrow> nat \<Rightarrow> int result" where
  "rated_term amp balancesScaled totalShares priceRates decimals tokenAmounts i =
     andThen (bptSpotPrice amp balancesScaled totalShares i) (\<lambda>spot.
     andThen (nth_defined priceRates i) (\<lambda>rate.
     andThen (nth_defined decimals i) (\<lambda>d.
     andThen (computeScalingFactor d) (\<lambda>scalingFactor.
     andThen (nth_defined tokenAmounts i) (\<lambda>amount.
     andThen (upscale amount scalingFactor) (\<lambda>amountUpscaled.
     Inr ((((spot * rate) sdiv ONE) * amountUpscaled) sdiv ONE)))))))"

definition MetaStablePoolPriceImpact_bptZeroPriceImpact :: "pool \<Rightarrow> int list \<Rightarrow> int result" where
  "MetaStablePoolPriceImpact_bptZeroPriceImpact p tokenAmounts =
     (if length tokenAmounts \<noteq> length (pool_tokensList p) then Inl INPUT_LENGTH_MISMATCH
      else
        andThen (traverse (present MISSING_DECIMALS) (parsedDecimals p)) (\<lambda>decimals.
        andThen (traverse (present MISSING_PRICE_RATE) (parsedPriceRates p)) (\<lambda>priceRates.
        andThen (present MISSING_PRICE_RATE (parsedAmp p)) (\<lambda>amp.
        andThen (traverse computeScalingFactor decimals) (\<lambda>scalingFactors.
        andThen (traverse (\<lambda>(balance, sf). upscale balance sf)
                   (zip (parsedBalances p) scalingFactors)) (\<lambda>balances.
        andThen (traverse (\<lambda>(balance, rate). mulDownFixed balance rate)
                   (zip balances priceRates)) (\<lambda>balancesScaled.
        sum_terms (rated_term amp balancesScaled (parsedTotalShares p) priceRates decimals
                     tokenAmounts)
          [0..<length balances] BZERO)))))))"

definition StablePhantomPriceImpact_bptZeroPriceImpact :: "pool \<Rightarrow> int list \<Rightarrow> int result" where
  "StablePhantomPriceImpact_bptZeroPriceImpact p tokenAmounts =
     (if int (length tokenAmounts) \<noteq> int (length (pool_tokensList p)) - 1
      then Inl INPUT_LENGTH_MISMATCH
      else
        let bptIndex = findIndex (\<lambda>token. token = pool_address p) (pool_tokensList p)
        in
        andThen (traverse (present MISSING_DECIMALS) (parsedDecimals p)) (\<lambda>decimals.
        andThen (traverse (present MISSING_PRICE_RATE) (parsedPriceRates p)) (\<lambda>priceRates.
        andThen (present MISSING_PRICE_RATE (parsedAmp p)) (\<lambda>amp.
        andThen (traverse computeScalingFactor decimals) (\<lambda>scalingFactors.
        andThen (traverse (\<lambda>(balance, sf). upscale balance sf)
                   (zip (parsedBalances p) scalingFactors)) (\<lambda>balances.
        if length tokenAmounts \<noteq> length (splice1 bptIndex (pool_tokensList p))
        then Inl INPUT_LENGTH_MISMATCH
        else
        andThen (traverse (\<lambda>(balance, rate). mulDownFixed balance rate)
                   (zip (splice1 bptIndex balances) priceRates)) (\<lambda>balancesScaled.
        sum_terms (rated_term amp balancesScaled (parsedTotalShares p) priceRates decimals
                     tokenAmounts)
          [0..<length (splice1 bptIndex (pool_tokensList p))] BZERO)))))))"

definition calcPriceImpact :: "int \<Rightarrow> int \<Rightarrow> int result" where
  "calcPriceImpact bptAmount bptZeroPriceImpact =
     andThen (divDownFixed bptAmount bptZeroPriceImpact) (\<lambda>q. Inr (ONE - q))"

text \<open>
  \<open>with_balance p k b\<close> is the snapshot \<open>p\<close> with the balance of its \<open>k\<close>-th token
  replaced by \<open>b\<close>.  \<open>example_pool b a\<close> is a snapshot with three 18-decimal tokens, the
  second of which is the pool's own token with balance \<open>b\<close>, and amplification \<open>a\<close>.
\<close>

definition with_balance :: "pool \<Rightarrow> nat \<Rightarrow> int \<Rightarrow> pool" where
  "with_balance p k b =
     p\<lparr>pool_tokens := (pool_tokens p)[k := (pool_tokens p ! k)\<lparr>token_balance := b\<rparr>]\<rparr>"

definition tok :: "string \<Rightarrow> int \<Rightarrow> token" where
  "tok a b = \<lparr>token_address = a, token_decimals = Some 18, token_balance = b,
              token_priceRate = Some ONE\<rparr>"

definition example_pool :: "int \<Rightarrow> int option \<Rightarrow> pool" where
  "example_pool b a =
     \<lparr>pool_address = ''P'', pool_tokensList = [''A'', ''P'', ''B''],
      pool_tokens = [tok ''A'' 100, tok ''P'' b, tok ''B'' 100],
      pool_amp = a, pool_totalShares = 200\<rparr>"

section \<open>Sequencing and truncating division\<close>

lemma andThen_Inl [simp]: "andThen (Inl e) f = Inl e"
  by (simp add: andThen_def)

lemma andThen_Inr [simp]: "andThen (Inr v) f = f v"
  by (simp add: andThen_def)

lemma sdiv_nonneg_eq_div: "0 \<le> a \<Longrightarrow> 0 \<le> b \<Longrightarrow> a sdiv b = a div (b::int)"
  by (simp add: signed_divide_int_def sgn_if)

lemma sdiv_mult_self_left: "a \<noteq> 0 \<Longrightarrow> (a * b) sdiv a = (b::int)"
proof -
  assume a: "a \<noteq> 0"
  have 1: "\<bar>a * b\<bar> div \<bar>a\<bar> = \<bar>b\<bar>" using a by (simp add: abs_mult)
  have s: "sgn a * sgn a = 1" using a by (simp add: sgn_if)
  have "sgn (a * b) * sgn a = sgn b * (sgn a * sgn a)" by (simp add: sgn_mult)
  then have 2: "sgn (a * b) * sgn a = sgn b" by (simp only: s mult_1_right)
  have "(a * b) sdiv a = sgn (a * b) * sgn a * (\<bar>a * b\<bar> div \<bar>a\<bar>)"
    by (simp add: signed_divide_int_def)
  also have "\<dots> = sgn b * \<bar>b\<bar>" by (simp only: 1 2)
  also have "\<dots> = b" by (simp add: sgn_if)
  finally show ?thesis .
qed

lemma sdiv_nonneg: "0 \<le> a \<Longrightarrow> 0 \<le> b \<Longrightarrow> 0 \<le> a sdiv (b::int)"
  by (simp add: sdiv_nonneg_eq_div pos_imp_zdiv_nonneg_iff div_int_pos_iff)

lemma SolidityMaths_mul_total: "SolidityMaths_mul a b = Inr (a * b)"
  by (cases "a = 0") (simp_all add: SolidityMaths_mul_def BZERO_def Let_def sdiv_mult_self_left)

lemma mulDownFixed_total: "mulDownFixed a b = Inr ((a * b) sdiv ONE)"
  by (cases "a = 0") (simp_all add: mulDownFixed_def BZERO_def Let_def sdiv_mult_self_left)

lemma SolidityMaths_add_total: "SolidityMaths_add a b = Inr (a + b)"
  by (simp add: SolidityMaths_add_def Let_def) linarith

lemma sdiv_minus_left: "(- a) sdiv b = - (a sdiv (b::int))"
  by (simp add: signed_divide_int_def)

lemma sdiv_minus_right: "a sdiv (- b) = - (a sdiv (b::int))"
  by (simp add: signed_divide_int_def)

lemmas sdiv_eval = sdiv_minus_left sdiv_minus_right sdiv_nonneg_eq_div

lemma smod_nonneg_eq_mod: "0 \<le> a \<Longrightarrow> 0 \<le> b \<Longrightarrow> a smod b = a mod (b::int)"
  by (simp add: signed_modulo_int_def sgn_if)

section \<open>Facts about LogExpMath\<close>

lemma exp_reduce_nonneg:
  assumes "0 \<le> an" and "0 \<le> fst p" and "0 \<le> snd p"
  shows "0 \<le> fst (exp_reduce xn an p) \<and> 0 \<le> snd (exp_reduce xn an p)"
  using assms
  by (cases p) (auto simp: exp_reduce_def ONE_20_def intro!: sdiv_nonneg mult_nonneg_nonneg)

lemma exp_taylor_nonneg:
  assumes "0 \<le> x" and "0 \<le> n" and "0 \<le> fst p" and "0 \<le> snd p"
  shows "0 \<le> fst (exp_taylor x n p) \<and> 0 \<le> snd (exp_taylor x n p)"
  using assms
  by (cases p) (auto simp: exp_taylor_def ONE_20_def intro!: sdiv_nonneg mult_nonneg_nonneg add_nonneg_nonneg)

lemma exp_series_nonneg:
  assumes "0 \<le> x"
  shows "0 \<le> exp_series x"
proof -
  have base: "0 \<le> fst (x, ONE_20 + x) \<and> 0 \<le> snd (x, ONE_20 + x)"
    using assms by (simp add: ONE_20_def)
  note step = exp_taylor_nonneg [OF assms]
  show ?thesis
    unfolding exp_series_def
    by (intro conjunct2 [OF step] conjunct1 [OF step] base [THEN conjunct1] base [THEN conjunct2]) simp_all
qed

lemma exp_first_nonneg:
  assumes "0 \<le> x"
  shows "0 \<le> fst (exp_first x) \<and> 0 \<le> snd (exp_first x)"
  using assms by (simp add: exp_first_def a0_def a1_def)

lemma exp_positive_nonneg:
  assumes "0 \<le> x"
  shows "0 \<le> exp_positive x"
proof -
  obtain x' firstAN where f: "exp_first x = (x', firstAN)" by (cases "exp_first x")
  with exp_first_nonneg [OF assms] have x': "0 \<le> x'" and fa: "0 \<le> firstAN" by simp_all
  define q where "q = exp_reduce x9 a9 (exp_reduce x8 a8 (exp_reduce x7 a7 (exp_reduce x6 a6
          (exp_reduce x5 a5 (exp_reduce x4 a4 (exp_reduce x3 a3 (exp_reduce x2 a2
          (x' * 100, ONE_20))))))))"
  have base: "0 \<le> fst (x' * 100, ONE_20) \<and> 0 \<le> snd (x' * 100, ONE_20)"
    using x' by (simp add: ONE_20_def)
  have an: "0 \<le> a2" "0 \<le> a3" "0 \<le> a4" "0 \<le> a5" "0 \<le> a6" "0 \<le> a7" "0 \<le> a8" "0 \<le> a9"
    by (simp_all add: a2_def a3_def a4_def a5_def a6_def a7_def a8_def a9_def)
  have q: "0 \<le> fst q \<and> 0 \<le> snd q"
    unfolding q_def
    by (intro exp_reduce_nonneg an conjunct1 [OF exp_reduce_nonneg] conjunct2 [OF exp_reduce_nonneg]
        base [THEN conjunct1] base [THEN conjunct2])
  obtain x'' product where qq: "q = (x'', product)" by (cases q)
  with q have x'': "0 \<le> x''" and pr: "0 \<le> product" by simp_all
  have "exp_positive x = (((product * exp_series x'') sdiv ONE_20) * firstAN) sdiv 100"
    using f qq by (simp add: exp_positive_def q_def [symmetric])
  moreover have "0 \<le> (((product * exp_series x'') sdiv ONE_20) * firstAN) sdiv 100"
    using pr fa exp_series_nonneg [OF x'']
    by (intro sdiv_nonneg mult_nonneg_nonneg) (simp_all add: ONE_20_def)
  ultimately show ?thesis by simp
qed

lemma LogExpMath_exp_nonneg:
  assumes "LogExpMath_exp x = Inr r"
  shows "0 \<le> r"
proof (cases "x < 0")
  case False
  with assms have "r = exp_positive x"
    by (simp add: LogExpMath_exp.simps [of x] split: if_splits)
  with False show ?thesis using exp_positive_nonneg [of x] by simp
next
  case True
  then have neg: "\<not> (- x) < 0" by simp
  from True assms
  have "andThen (LogExpMath_exp (- x)) (bigint_div (ONE_18 * ONE_18)) = Inr r"
    by (simp add: LogExpMath_exp.simps [of x] split: if_splits)
  then obtain e where e: "LogExpMath_exp (- x) = Inr e"
    and r: "bigint_div (ONE_18 * ONE_18) e = Inr r"
    by (cases "LogExpMath_exp (- x)") simp_all
  from e neg have "e = exp_positive (- x)"
    by (simp add: LogExpMath_exp.simps [of "- x"] split: if_splits)
  with True have "0 \<le> e" using exp_positive_nonneg [of "- x"] by simp
  moreover from r have "r = (ONE_18 * ONE_18) sdiv e"
    by (simp add: bigint_div_def split: if_splits)
  ultimately show ?thesis by (simp add: sdiv_nonneg ONE_18_def)
qed

lemma LogExpMath_pow_nonneg:
  assumes "LogExpMath_pow x y = Some (Inr raw)"
  shows "0 \<le> raw"
proof -
  consider "y = 0" | "y \<noteq> 0" "x = 0" | l where "y \<noteq> 0" "x \<noteq> 0" "pow_exp l = Some (Inr raw)"
    using assms
    by (auto simp: LogExpMath_pow_def BZERO_def andThenO_def
        split: if_splits option.splits sum.splits)
  then show ?thesis
  proof cases
    case 1
    with assms show ?thesis by (simp add: LogExpMath_pow_def BZERO_def ONE_18_def)
  next
    case 2
    with assms show ?thesis by (simp add: LogExpMath_pow_def BZERO_def)
  next
    case 3
    then have "LogExpMath_exp (l sdiv ONE_18) = Inr raw"
      by (simp add: pow_exp_def split: if_splits)
    then show ?thesis by (rule LogExpMath_exp_nonneg)
  qed
qed

lemma mulUpFixed_nonneg_ceiling:
  assumes "0 \<le> a" and "0 \<le> b"
  shows "mulUpFixed a b = Inr ((a * b + (ONE - 1)) div ONE)"
proof (cases "a * b = 0")
  case True
  then show ?thesis
    by (cases "a = 0") (simp_all add: mulUpFixed_def BZERO_def Let_def ONE_def)
next
  case False
  then have a0: "a \<noteq> 0" by auto
  have pos: "0 \<le> a * b - 1" using False assms
    by (smt (verit) mult_nonneg_nonneg)
  have "(a * b - 1) sdiv ONE + 1 = (a * b - 1) div ONE + 1"
    using pos by (simp add: sdiv_nonneg_eq_div ONE_def)
  also have "\<dots> = (a * b - 1 + ONE) div ONE" by (simp add: ONE_def)
  also have "a * b - 1 + ONE = a * b + (ONE - 1)" by simp
  finally show ?thesis
    using False a0 by (simp add: mulUpFixed_def BZERO_def BONE_def Let_def sdiv_mult_self_left)
qed

lemma pow_zero: "LogExpMath_pow x 0 = Some (Inr ONE)"
  by (simp add: LogExpMath_pow_def BZERO_def ONE_18_def ONE_def)

lemma ln_36_ONE: "ln_36 ONE_18 = Inr 0"
  by (simp add: ln_36_def ln_36_series_def ln_36_term_def bigint_div_def ONE_18_def ONE_36_def)

lemma exp_series_0: "exp_series 0 = ONE_20"
  by (simp add: exp_series_def exp_taylor_def)

lemma exp_positive_0: "exp_positive 0 = ONE_18"
  by (simp add: exp_positive_def exp_first_def exp_reduce_def exp_series_0 ONE_18_def ONE_20_def
      x0_def x1_def x2_def x3_def x4_def x5_def x6_def x7_def x8_def x9_def sdiv_nonneg_eq_div)

lemma LogExpMath_exp_0: "LogExpMath_exp 0 = Inr ONE_18"
  by (simp add: LogExpMath_exp.simps [of 0] exp_positive_0
      MIN_NATURAL_EXPONENT_def MAX_NATURAL_EXPONENT_def)

lemma pow_exp_0: "pow_exp 0 = Some (Inr ONE_18)"
  by (simp add: pow_exp_def LogExpMath_exp_0 MIN_NATURAL_EXPONENT_def MAX_NATURAL_EXPONENT_def)

lemma pow_ONE: 
  assumes "y < MILD_EXPONENT_BOUND"
  shows "LogExpMath_pow ONE y = Some (Inr ONE)"
proof (cases "y = 0")
  case True
  then show ?thesis by (simp add: pow_zero)
next
  case False
  have one: "ONE = ONE_18" by (simp add: ONE_def ONE_18_def)
  have rng: "LN_36_LOWER_BOUND < ONE_18 \<and> ONE_18 < LN_36_UPPER_BOUND"
    by (simp add: LN_36_LOWER_BOUND_def LN_36_UPPER_BOUND_def ONE_18_def)
  have nz: "ONE_18 \<noteq> 0" and lt: "ONE_18 < 57896044618658097711785492504343953926634992332820282019728792003956564819968"
    by (simp_all add: ONE_18_def)
  show ?thesis
    unfolding one LogExpMath_pow_def
    using False assms rng nz lt
    by (simp add: BZERO_def ln_36_ONE andThenO_def pow_exp_0)
qed

lemma ln_36_example: "ln_36 1050000000000000000 = Inr 48790164169432003065374404178136230"
  by (simp add: ln_36_def ln_36_series_def ln_36_term_def bigint_div_def ONE_18_def ONE_36_def
      sdiv_nonneg_eq_div)

lemma exp_series_example: "exp_series 2439508208471600100 = 102469507659595983774"
  by (simp add: exp_series_def exp_taylor_def ONE_20_def sdiv_nonneg_eq_div)

lemma exp_positive_example: "exp_positive 24395082084716001 = 1024695076595959837"
  by (simp add: exp_positive_def exp_first_def exp_reduce_def exp_series_example ONE_20_def
      x0_def x1_def x2_def x3_def x4_def x5_def x6_def x7_def x8_def x9_def sdiv_nonneg_eq_div)

lemma LogExpMath_exp_example: "LogExpMath_exp 24395082084716001 = Inr 1024695076595959837"
  by (simp add: LogExpMath_exp.simps [of 24395082084716001] exp_positive_example
      MIN_NATURAL_EXPONENT_def MAX_NATURAL_EXPONENT_def)

lemma LogExpMath_pow_example: "LogExpMath_pow 1050000000000000000 500000000000000000 = Some (Inr 1024695076595959837)"
  by (simp add: LogExpMath_pow_def pow_exp_def andThenO_def ln_36_example LogExpMath_exp_example BZERO_def
      MILD_EXPONENT_BOUND_def LN_36_LOWER_BOUND_def LN_36_UPPER_BOUND_def ONE_18_def ONE_20_def
      MIN_NATURAL_EXPONENT_def MAX_NATURAL_EXPONENT_def sdiv_nonneg_eq_div smod_nonneg_eq_mod)

lemma powUpFixed_example: "powUpFixed 1050000000000000000 500000000000000000 = Some (Inr 1024695076595970085)"
  by (simp add: powUpFixed_def andThenO_def LogExpMath_pow_example mulUpFixed_def SolidityMaths_add_def
      MAX_POW_RELATIVE_ERROR_def BZERO_def BONE_def ONE_def sdiv_nonneg_eq_div)

section \<open>Facts about the invariant solver\<close>

lemma iterate_iterate_from:
  "iterate amp balances roundUp k = iterate_from amp balances roundUp (sum_list balances) k"
  by (induction k) simp_all

lemma iterate_from_shift:
  "iterate_from amp bs r D (Suc k) =
     andThen (invariant_step amp bs r D) (\<lambda>D'. iterate_from amp bs r D' k)"
proof (induction k)
  case 0
  show ?case by (cases "invariant_step amp bs r D") simp_all
next
  case (Suc k)
  have "iterate_from amp bs r D (Suc (Suc k)) =
          andThen (iterate_from amp bs r D (Suc k)) (invariant_step amp bs r)"
    by simp
  also have "\<dots> = andThen (andThen (invariant_step amp bs r D) (\<lambda>D'. iterate_from amp bs r D' k))
                       (invariant_step amp bs r)"
    by (simp only: Suc.IH)
  also have "\<dots> = andThen (invariant_step amp bs r D) (\<lambda>D'. iterate_from amp bs r D' (Suc k))"
    by (cases "invariant_step amp bs r D") simp_all
  finally show ?case .
qed

lemma iterate_from_step_Inr:
  "invariant_step amp bs r D = Inr v \<Longrightarrow>
     iterate_from amp bs r D (Suc k) = iterate_from amp bs r v k"
  by (simp only: iterate_from_shift andThen_Inr)

lemma loop_step_close:
  assumes "invariant_step amp bs r D = Inr v" and "\<bar>v - D\<bar> \<le> 1"
  shows "invariant_loop (Suc n) amp bs r D = Inr v"
  using assms by auto

lemma loop_step_apart:
  assumes "invariant_step amp bs r D = Inr v" and "\<bar>v - D\<bar> > 1"
  shows "invariant_loop (Suc n) amp bs r D = invariant_loop n amp bs r v"
  using assms by auto

lemma within_one_first:
  "within_one (Inr D) (iterate_from amp bs r D (Suc 0))
     \<longleftrightarrow> (\<exists>v. invariant_step amp bs r D = Inr v \<and> \<bar>v - D\<bar> \<le> 1)"
  by (cases "invariant_step amp bs r D") (simp_all add: within_one_def)

lemma apart_first:
  "apart (Inr D) (iterate_from amp bs r D (Suc 0))
     \<longleftrightarrow> (\<exists>v. invariant_step amp bs r D = Inr v \<and> \<bar>v - D\<bar> > 1)"
  by (cases "invariant_step amp bs r D") (simp_all add: apart_def)

lemma loop_returns:
  assumes "k < n"
    and "\<forall>j<k. apart (iterate_from amp bs r D j) (iterate_from amp bs r D (Suc j))"
    and "within_one (iterate_from amp bs r D k) (iterate_from amp bs r D (Suc k))"
  shows "invariant_loop n amp bs r D = iterate_from amp bs r D (Suc k)"
  using assms
proof (induction n arbitrary: k D)
  case 0
  then show ?case by simp
next
  case (Suc n)
  show ?case
  proof (cases k)
    case 0
    with Suc.prems(3) obtain v where v: "invariant_step amp bs r D = Inr v" "\<bar>v - D\<bar> \<le> 1"
      using within_one_first [of D amp bs r] by auto
    then have "invariant_loop (Suc n) amp bs r D = Inr v" by (rule loop_step_close)
    moreover have "iterate_from amp bs r D (Suc 0) = Inr v" using v(1) by simp
    ultimately show ?thesis using 0 by simp
  next
    case (Suc k')
    with Suc.prems(2) have "apart (iterate_from amp bs r D 0) (iterate_from amp bs r D (Suc 0))"
      by blast
    then obtain v where v: "invariant_step amp bs r D = Inr v" "\<bar>v - D\<bar> > 1"
      using apart_first [of D amp bs r] by auto
    note sh = iterate_from_step_Inr [OF v(1)]
    have a: "\<forall>j<k'. apart (iterate_from amp bs r v j) (iterate_from amp bs r v (Suc j))"
    proof (intro allI impI)
      fix j assume "j < k'"
      then have "Suc j < k" using Suc by simp
      with Suc.prems(2)
      have "apart (iterate_from amp bs r D (Suc j)) (iterate_from amp bs r D (Suc (Suc j)))"
        by blast
      then show "apart (iterate_from amp bs r v j) (iterate_from amp bs r v (Suc j))"
        by (simp only: sh)
    qed
    have w: "within_one (iterate_from amp bs r v k') (iterate_from amp bs r v (Suc k'))"
      using Suc.prems(3) Suc by (simp only: sh)
    have "k' < n" using Suc.prems(1) Suc by simp
    from Suc.IH [OF this a w]
    have "invariant_loop n amp bs r v = iterate_from amp bs r v (Suc k')" .
    moreover have "invariant_loop (Suc n) amp bs r D = invariant_loop n amp bs r v"
      using v by (rule loop_step_apart)
    ultimately show ?thesis using Suc by (simp only: sh)
  qed
qed

lemma loop_exhausts:
  assumes "\<forall>j<n. apart (iterate_from amp bs r D j) (iterate_from amp bs r D (Suc j))"
  shows "invariant_loop n amp bs r D = Inl STABLE_INVARIANT_DIDNT_CONVERGE"
  using assms
proof (induction n arbitrary: D)
  case 0
  then show ?case by simp
next
  case (Suc n)
  then have "apart (iterate_from amp bs r D 0) (iterate_from amp bs r D (Suc 0))"
    by blast
  then obtain v where v: "invariant_step amp bs r D = Inr v" "\<bar>v - D\<bar> > 1"
    using apart_first [of D amp bs r] by auto
  note sh = iterate_from_step_Inr [OF v(1)]
  have a: "\<forall>j<n. apart (iterate_from amp bs r v j) (iterate_from amp bs r v (Suc j))"
  proof (intro allI impI)
    fix j assume "j < n"
    then have "Suc j < Suc n" by simp
    with Suc.prems
    have "apart (iterate_from amp bs r D (Suc j)) (iterate_from amp bs r D (Suc (Suc j)))"
      by blast
    then show "apart (iterate_from amp bs r v j) (iterate_from amp bs r v (Suc j))"
      by (simp only: sh)
  qed
  from Suc.IH [OF a] have "invariant_loop n amp bs r v = Inl STABLE_INVARIANT_DIDNT_CONVERGE" .
  moreover have "invariant_loop (Suc n) amp bs r D = invariant_loop n amp bs r v"
    using v by (rule loop_step_apart)
  ultimately show ?case by simp
qed

lemma loop_value:
  assumes "invariant_loop n amp bs r D = Inr v"
  shows "\<exists>k<n. iterate_from amp bs r D (Suc k) = Inr v
           \<and> within_one (iterate_from amp bs r D k) (iterate_from amp bs r D (Suc k))
           \<and> (\<forall>j<k. apart (iterate_from amp bs r D j) (iterate_from amp bs r D (Suc j)))"
  using assms
proof (induction n arbitrary: D)
  case 0
  then show ?case by simp
next
  case (Suc n)
  from Suc.prems obtain w where w: "invariant_step amp bs r D = Inr w"
    by (cases "invariant_step amp bs r D") simp_all
  show ?case
  proof (cases "\<bar>w - D\<bar> \<le> 1")
    case True
    with w have "invariant_loop (Suc n) amp bs r D = Inr w" by (rule loop_step_close)
    with Suc.prems have "w = v" by simp
    with w True have i1: "iterate_from amp bs r D (Suc 0) = Inr v"
      and i2: "within_one (iterate_from amp bs r D 0) (iterate_from amp bs r D (Suc 0))"
      by (simp_all add: within_one_def)
    have i3: "\<forall>j<0::nat. apart (iterate_from amp bs r D j) (iterate_from amp bs r D (Suc j))"
      by simp
    have "(0::nat) < Suc n" by simp
    with i1 i2 i3 show ?thesis by blast
  next
    case False
    then have ap: "\<bar>w - D\<bar> > 1" by simp
    with w have "invariant_loop (Suc n) amp bs r D = invariant_loop n amp bs r w"
      by (rule loop_step_apart)
    with Suc.prems have "invariant_loop n amp bs r w = Inr v" by simp
    from Suc.IH [OF this] obtain k where k: "k < n"
      "iterate_from amp bs r w (Suc k) = Inr v"
      "within_one (iterate_from amp bs r w k) (iterate_from amp bs r w (Suc k))"
      "\<forall>j<k. apart (iterate_from amp bs r w j) (iterate_from amp bs r w (Suc j))"
      by blast
    note sh = iterate_from_step_Inr [OF w, symmetric]
    have first: "apart (iterate_from amp bs r D 0) (iterate_from amp bs r D (Suc 0))"
      using w ap by (simp add: apart_def)
    have rest: "\<forall>j<Suc k. apart (iterate_from amp bs r D j) (iterate_from amp bs r D (Suc j))"
    proof (intro allI impI)
      fix j assume j: "j < Suc k"
      show "apart (iterate_from amp bs r D j) (iterate_from amp bs r D (Suc j))"
      proof (cases j)
        case 0
        with first show ?thesis by simp
      next
        case (Suc j')
        with j have "j' < k" by simp
        with k(4) have "apart (iterate_from amp bs r w j') (iterate_from amp bs r w (Suc j'))"
          by blast
        then show ?thesis unfolding Suc by (simp only: sh)
      qed
    qed
    have "iterate_from amp bs r D (Suc (Suc k)) = Inr v" using k(2) by (simp only: sh)
    moreover have "within_one (iterate_from amp bs r D (Suc k)) (iterate_from amp bs r D (Suc (Suc k)))"
      using k(3) by (simp only: sh)
    moreover have "Suc k < Suc n" using k(1) by simp
    ultimately show ?thesis using rest by blast
  qed
qed

lemmas step_eval = invariant_step_def invariant_update_def SolidityMaths_mul_total
  SolidityMaths_div_def SolidityMaths_divUp_def SolidityMaths_divDown_def
  AMP_PRECISION_def BZERO_def BONE_def sdiv_eval

lemma steps_100_300:
  "invariant_step 5000 [100, 300] True 400 = Inr 390"
  "invariant_step 5000 [100, 300] True 390 = Inr 390"
  by (simp_all add: step_eval)

section \<open>Progress of the update on non-negative balances\<close>

text \<open>
  The comment in the source (\<^verbatim>\<open>the amp is guaranteed to be at least 1\<close>, that is
  \<open>AMP_PRECISION \<le> amp\<close>) and the non-negative balances of a pool snapshot are what
  keeps the update defined: from a positive iterate every division has a positive divisor,
  the next iterate is non-negative, and it is zero only when the current one is 1.
\<close>

lemma divDown_nonneg:
  assumes "0 \<le> a" and "0 < b"
  shows "SolidityMaths_divDown a b = Inr (a div b)"
  using assms by (simp add: SolidityMaths_divDown_def BZERO_def sdiv_nonneg_eq_div)

lemma divUp_nonneg:
  assumes "0 \<le> a" and "0 < b"
  shows "SolidityMaths_divUp a b = Inr ((a + (b - 1)) div b)"
proof (cases "a = 0")
  case True
  with assms show ?thesis by (simp add: SolidityMaths_divUp_def BZERO_def)
next
  case False
  with assms have "0 \<le> a - 1" by simp
  then have "(a - 1) sdiv b = (a - 1) div b" using assms by (simp add: sdiv_nonneg_eq_div)
  moreover have "(a + (b - 1)) div b = 1 + (a - 1) div b"
  proof -
    have "(a + (b - 1)) div b = ((a - 1) + b) div b" by (simp add: algebra_simps)
    also have "\<dots> = (a - 1) div b + 1" using assms by (simp only: div_add_self2)
    finally show ?thesis by simp
  qed
  ultimately show ?thesis
    using False assms by (simp add: SolidityMaths_divUp_def BZERO_def BONE_def)
qed

lemma div_bounds:
  assumes "0 \<le> a" and "0 < b"
  shows "\<exists>q. SolidityMaths_div a b r = Inr q \<and> a div b \<le> q \<and> q \<le> (a + (b - 1)) div b"
proof -
  have "a div b \<le> (a + (b - 1)) div b"
    using assms by (intro zdiv_mono1) simp_all
  then show ?thesis
    using assms by (cases r) (simp_all add: SolidityMaths_div_def divDown_nonneg divUp_nonneg)
qed

lemma div_nonneg_result:
  assumes "0 \<le> a" and "0 < b"
  shows "\<exists>q. SolidityMaths_div a b r = Inr q \<and> 0 \<le> q"
proof -
  from div_bounds [OF assms, of r] obtain q where
    q: "SolidityMaths_div a b r = Inr q" "a div b \<le> q" by blast
  moreover have "0 \<le> a div b" using assms by (simp add: pos_imp_zdiv_nonneg_iff)
  ultimately show ?thesis by auto
qed

lemma calc_P_D_nonneg:
  assumes "0 < D" and "0 \<le> n" and "\<forall>b \<in> set bs. 0 \<le> b" and "0 \<le> P"
  shows "\<exists>P'. calc_P_D n D r bs P = Inr P' \<and> 0 \<le> P'"
  using assms(3,4)
proof (induction bs arbitrary: P)
  case Nil
  then show ?case by simp
next
  case (Cons b bs)
  then have "0 \<le> P * b * n" using assms(2) by simp
  from div_nonneg_result [OF this assms(1), of r] obtain q where
    q: "SolidityMaths_div (P * b * n) D r = Inr q" "0 \<le> q" by blast
  from Cons.prems have "\<forall>b \<in> set bs. 0 \<le> b" by simp
  from Cons.IH [OF this q(2)] show ?case
    by (simp add: SolidityMaths_mul_total q(1))
qed

lemma update_progress:
  assumes n: "1 \<le> n" and att: "AMP_PRECISION \<le> att" and s: "1 \<le> s" and D: "0 < D"
    and P: "0 \<le> P"
  shows "\<exists>v. invariant_update n att s r D P = Inr v \<and> 0 \<le> v \<and> (v = 0 \<longrightarrow> D \<le> 1)"
proof -
  have att0: "0 \<le> att" and att1: "0 \<le> att - 1000" using att by (simp_all add: AMP_PRECISION_def)
  have xn: "0 \<le> att * s * P" using att0 s P by simp
  have yn: "0 \<le> (att - AMP_PRECISION) * P" using att1 P by (simp add: AMP_PRECISION_def)
  have ap: "(0::int) < AMP_PRECISION" by (simp add: AMP_PRECISION_def)
  from div_bounds [OF xn ap, of r] obtain X where
    X: "SolidityMaths_div (att * s * P) AMP_PRECISION r = Inr X"
       "(att * s * P) div AMP_PRECISION \<le> X" by blast
  from div_bounds [OF yn ap, of "\<not> r"] obtain Y where
    Y: "SolidityMaths_div ((att - AMP_PRECISION) * P) AMP_PRECISION (\<not> r) = Inr Y"
       "((att - AMP_PRECISION) * P) div AMP_PRECISION \<le> Y"
       "Y \<le> ((att - AMP_PRECISION) * P + (AMP_PRECISION - 1)) div AMP_PRECISION" by blast
  have X0: "0 \<le> X"
    using X(2) xn by (smt (verit) ap pos_imp_zdiv_nonneg_iff)
  have Y0: "0 \<le> Y"
    using Y(2) yn by (smt (verit) ap pos_imp_zdiv_nonneg_iff)
  have YX: "Y \<le> X"
  proof (cases "P = 0")
    case True
    with Y(3) X0 show ?thesis by (simp add: AMP_PRECISION_def)
  next
    case False
    with P have P1: "1 \<le> P" by simp
    have "(att - 1000) * P + 999 = (att * P - 1) + (- P + 1) * 1000"
      by (simp add: algebra_simps)
    then have "((att - 1000) * P + 999) div 1000 = (att * P - 1) div 1000 + (- P + 1)"
      by (simp only: div_mult_self1 [of 1000 "att * P - 1" "- P + 1"]) 
    also have "\<dots> \<le> (att * P - 1) div 1000" using P1 by simp
    also have "\<dots> \<le> (att * P) div 1000" by (intro zdiv_mono1) simp_all
    also have "\<dots> \<le> (att * s * P) div 1000"
    proof (intro zdiv_mono1)
      have "att * P * 1 \<le> att * P * s"
        using att0 P s by (intro mult_left_mono) simp_all
      then show "att * P \<le> att * s * P" by (simp add: mult.commute mult.left_commute)
    qed simp
    finally have "((att - 1000) * P + 999) div 1000 \<le> (att * s * P) div 1000" .
    with Y(3) X(2) show ?thesis by (simp add: AMP_PRECISION_def)
  qed
  let ?num = "n * D * D + X" and ?den = "(n + 1) * D + Y"
  have nD: "0 < n * D" using n D by simp
  have num_pos: "0 < ?num" using nD D X0 by (smt (verit) mult_pos_pos)
  have den_pos: "0 < ?den" using n D Y0 by (smt (verit) mult_pos_pos)
  from div_bounds [OF _ den_pos, of ?num r] num_pos obtain v where
    v: "SolidityMaths_div ?num ?den r = Inr v" "?num div ?den \<le> v"
    by (smt (verit))
  have upd: "invariant_update n att s r D P = Inr v"
    by (simp add: invariant_update_def SolidityMaths_mul_total X(1) Y(1) v(1))
  have v0: "0 \<le> v"
    using v(2) num_pos den_pos by (smt (verit) pos_imp_zdiv_nonneg_iff)
  have big: "1 \<le> v" if D2: "2 \<le> D"
  proof -
    have "n * 2 \<le> n * D" using n D2 by (intro mult_left_mono) simp_all
    then have "n + 1 \<le> n * D" using n by linarith
    then have "(n + 1) * D \<le> n * D * D" using D by (intro mult_right_mono) simp_all
    then have "?den \<le> ?num" using YX by simp
    then have "?den div ?den \<le> ?num div ?den" by (intro zdiv_mono1 den_pos)
    then have "1 \<le> ?num div ?den" using den_pos by simp
    with v(2) show ?thesis by simp
  qed
  have "v = 0 \<longrightarrow> D \<le> 1" using big by (smt (verit))
  with upd v0 show ?thesis by blast
qed

lemma step_progress:
  assumes "\<forall>b \<in> set balances. 0 \<le> b" and "0 < sum_list balances"
    and "AMP_PRECISION \<le> amp" and "0 < D"
  shows "\<exists>v. invariant_step amp balances r D = Inr v \<and> 0 \<le> v \<and> (v = 0 \<longrightarrow> D \<le> 1)"
proof -
  from assms(2) obtain b0 rest where bs: "balances = b0 # rest" by (cases balances) simp_all
  define n where "n = int (length balances)"
  have n: "1 \<le> n" using bs by (simp add: n_def)
  have n0: "0 \<le> n" using n by simp
  have b0: "0 \<le> b0 * n" using assms(1) bs n0 by simp
  have rest: "\<forall>b \<in> set rest. 0 \<le> b" using assms(1) bs by simp
  from calc_P_D_nonneg [OF assms(4) n0 rest b0, of r] obtain P where
    P: "calc_P_D n D r rest (b0 * n) = Inr P" "0 \<le> P" by auto
  have "AMP_PRECISION * 1 \<le> amp * n"
    using assms(3) n by (intro mult_mono) (simp_all add: AMP_PRECISION_def)
  then have att: "AMP_PRECISION \<le> amp * n" by simp
  have s: "1 \<le> sum_list balances" using assms(2) by simp
  have "invariant_step amp balances r D =
          andThen (calc_P_D n D r rest (b0 * n))
            (invariant_update n (amp * n) (sum_list balances) r D)"
    unfolding n_def invariant_step_def by (subst bs) simp
  then have "invariant_step amp balances r D
               = invariant_update n (amp * n) (sum_list balances) r D P"
    by (simp only: P(1) andThen_Inr)
  with update_progress [OF n att s assms(4) P(2), of r]
  show ?thesis by simp
qed

lemma iterates_prefix:
  assumes "\<forall>b \<in> set balances. 0 \<le> b" and "0 < sum_list balances"
    and "AMP_PRECISION \<le> amp" and "0 < D"
    and "\<forall>j<k. \<not> within_one (iterate_from amp balances r D j)
                            (iterate_from amp balances r D (Suc j))"
  shows "\<exists>d. iterate_from amp balances r D k = Inr d \<and> 0 < d
           \<and> (\<forall>j<k. apart (iterate_from amp balances r D j)
                               (iterate_from amp balances r D (Suc j)))"
  using assms(5)
proof (induction k)
  case 0
  show ?case using assms(4) by simp
next
  case (Suc k)
  then have "\<forall>j<k. \<not> within_one (iterate_from amp balances r D j)
                            (iterate_from amp balances r D (Suc j))"
    by simp
  from Suc.IH [OF this] obtain d where
    d: "iterate_from amp balances r D k = Inr d" "0 < d"
       "\<forall>j<k. apart (iterate_from amp balances r D j) (iterate_from amp balances r D (Suc j))"
    by blast
  from step_progress [OF assms(1-3) d(2), of r] obtain v where
    v: "invariant_step amp balances r d = Inr v" "0 \<le> v" "v = 0 \<longrightarrow> d \<le> 1"
    by blast
  have nxt: "iterate_from amp balances r D (Suc k) = Inr v"
    using d(1) v(1) by simp
  from Suc.prems have "\<not> within_one (iterate_from amp balances r D k)
                            (iterate_from amp balances r D (Suc k))"
    by blast
  then have far: "\<bar>v - d\<bar> > 1"
    by (simp only: d(1) nxt) (simp add: within_one_def)
  then have ap: "apart (iterate_from amp balances r D k) (iterate_from amp balances r D (Suc k))"
    by (simp only: d(1) nxt) (simp add: apart_def)
  have vpos: "0 < v" using v(2,3) d(2) far by (smt (verit))
  have "\<forall>j<Suc k. apart (iterate_from amp balances r D j)
                          (iterate_from amp balances r D (Suc j))"
    using d(3) ap by (auto simp: less_Suc_eq simp del: iterate_from.simps)
  with nxt vpos show ?case by blast
qed

lemma within_one_Inr:
  "within_one a b \<Longrightarrow> \<exists>v. b = Inr v"
  by (cases a; cases b) (simp_all add: within_one_def)

lemma steps_1_1_3:
  "invariant_step 1001 [1, 1, 3] False 5 = Inr 3"
  "invariant_step 1001 [1, 1, 3] False 3 = Inr 5"
  by (simp_all add: step_eval)

lemma orbit_1_1_3:
  "iterate 1001 [1, 1, 3] False (2 * m) = Inr 5
   \<and> iterate 1001 [1, 1, 3] False (Suc (2 * m)) = Inr 3"
  by (induction m) (simp_all add: steps_1_1_3)

lemma far_1_1_3:
  "\<not> within_one (iterate 1001 [1, 1, 3] False k) (iterate 1001 [1, 1, 3] False (Suc k))"
proof (cases "even k")
  case True
  then obtain m where "k = 2 * m" by (auto elim: evenE)
  then show ?thesis using orbit_1_1_3 [of m] by (simp add: within_one_def steps_1_1_3)
next
  case False
  then obtain m where k: "k = Suc (2 * m)" by (auto elim: oddE)
  have "iterate 1001 [1, 1, 3] False (Suc k) = Inr 5"
    using orbit_1_1_3 [of "Suc m"] k by simp
  then show ?thesis using orbit_1_1_3 [of m] k by (simp add: within_one_def steps_1_1_3)
qed

section \<open>Facts about the logged update\<close>

lemma snd_andThenL: "snd (andThenL m f) = andThen (snd m) (\<lambda>v. snd (f v))"
  by (cases "snd m") (simp_all add: andThenL_def)

lemma fst_andThenL_Inr: "snd m = Inr v \<Longrightarrow> fst (andThenL m f) = fst m @ fst (f v)"
  by (simp add: andThenL_def)

lemma fst_andThenL_Inl: "snd m = Inl e \<Longrightarrow> fst (andThenL m f) = fst m"
  by (simp add: andThenL_def)

lemma unlogged_parts [simp]:
  "fst (unlogged x) = []"
  "snd (unlogged x) = x"
  by (simp_all add: unlogged_def)

lemma logged_div_parts [simp]:
  "fst (logged_div a b r) = [r]"
  "snd (logged_div a b r) = SolidityMaths_div a b r"
  by (simp_all add: logged_div_def)

lemma SolidityMaths_div_defined:
  "b \<noteq> 0 \<Longrightarrow> \<exists>q. SolidityMaths_div a b r = Inr q"
  by (simp add: SolidityMaths_div_def SolidityMaths_divUp_def SolidityMaths_divDown_def BZERO_def)

lemma SolidityMaths_div_zero:
  "SolidityMaths_div a 0 r = Inl ZERO_DIVISION"
  by (simp add: SolidityMaths_div_def SolidityMaths_divUp_def SolidityMaths_divDown_def BZERO_def)

lemma calc_P_D_logged_snd:
  "snd (calc_P_D_logged n D r bs P) = calc_P_D n D r bs P"
proof (induction bs arbitrary: P)
  case Nil
  show ?case by (simp add: unlogged_def)
next
  case (Cons b bs)
  show ?case
    by (cases "SolidityMaths_div (P * b * n) D r")
       (simp_all add: snd_andThenL SolidityMaths_mul_total Cons.IH)
qed

lemma calc_P_D_logged_fst:
  assumes "D \<noteq> 0"
  shows "fst (calc_P_D_logged n D r bs P) = replicate (length bs) r"
proof (induction bs arbitrary: P)
  case Nil
  show ?case by (simp add: unlogged_def)
next
  case (Cons b bs)
  obtain q where q: "SolidityMaths_div (P * b * n) D r = Inr q"
    using SolidityMaths_div_defined [OF assms] by blast
  show ?case
    by (simp add: fst_andThenL_Inr [where v = "P * b"] fst_andThenL_Inr [where v = "P * b * n"]
        fst_andThenL_Inr [where v = q] q Cons.IH SolidityMaths_mul_total)
qed

lemma calc_P_D_logged_fst_zero:
  "fst (calc_P_D_logged n 0 r (b # bs) P) = [r]"
  by (simp add: fst_andThenL_Inr [where v = "P * b"] fst_andThenL_Inr [where v = "P * b * n"]
      fst_andThenL_Inl [where e = ZERO_DIVISION] SolidityMaths_div_zero SolidityMaths_mul_total)

lemma calc_P_D_zero:
  "calc_P_D n 0 r (b # bs) P = Inl ZERO_DIVISION"
  by (simp add: SolidityMaths_mul_total SolidityMaths_div_zero)

lemma invariant_update_logged_snd:
  "snd (invariant_update_logged n att s r D P) = invariant_update n att s r D P"
  unfolding invariant_update_logged_def invariant_update_def
  by (simp add: snd_andThenL SolidityMaths_mul_total)

lemma invariant_update_logged_fst:
  "fst (invariant_update_logged n att s r D P) = [r, \<not> r, r]"
proof -
  obtain q1 where q1: "SolidityMaths_div (att * s * P) AMP_PRECISION r = Inr q1"
    using SolidityMaths_div_defined [of AMP_PRECISION] by (auto simp: AMP_PRECISION_def)
  obtain q2 where q2: "SolidityMaths_div ((att - AMP_PRECISION) * P) AMP_PRECISION (\<not> r) = Inr q2"
    using SolidityMaths_div_defined [of AMP_PRECISION] by (auto simp: AMP_PRECISION_def)
  show ?thesis
    unfolding invariant_update_logged_def
    by (simp add: fst_andThenL_Inr [where v = "n * D"] fst_andThenL_Inr [where v = "n * D * D"]
        fst_andThenL_Inr [where v = "att * s"] fst_andThenL_Inr [where v = "att * s * P"]
        fst_andThenL_Inr [where v = q1] fst_andThenL_Inr [where v = "(n + 1) * D"]
        fst_andThenL_Inr [where v = "(att - AMP_PRECISION) * P"]
        fst_andThenL_Inr [where v = q2] q1 q2 SolidityMaths_mul_total)
qed

lemma calc_P_D_defined:
  assumes "D \<noteq> 0"
  shows "\<exists>P'. calc_P_D n D r bs P = Inr P'"
proof (induction bs arbitrary: P)
  case Nil
  show ?case by simp
next
  case (Cons b bs)
  obtain q where q: "SolidityMaths_div (P * b * n) D r = Inr q"
    using SolidityMaths_div_defined [OF assms] by blast
  show ?case using Cons.IH [of q] by (simp add: SolidityMaths_mul_total q)
qed

lemmas logged_eval = invariant_step_logged_def invariant_update_logged_def andThenL_def
  unlogged_def logged_div_def SolidityMaths_mul_total
  SolidityMaths_div_def SolidityMaths_divUp_def SolidityMaths_divDown_def
  AMP_PRECISION_def BZERO_def BONE_def sdiv_eval

section \<open>Facts about the price-impact methods\<close>

lemma traverse_upscale:
  "traverse (\<lambda>(balance, sf). upscale balance sf) zs
     = Inr (map (\<lambda>(balance, sf). (balance * sf) sdiv ONE) zs)"
  by (induction zs) (auto simp: upscale_def mulDownFixed_total)

lemma map_update_same:
  "f y = f (xs ! k) \<Longrightarrow> map f (xs[k := y]) = map f xs"
  by (induction xs arbitrary: k) (auto split: nat.splits)

lemma zip_update_left:
  "zip (xs[k := x]) ys = (zip xs ys)[k := (x, ys ! k)]"
  by (induction xs arbitrary: k ys) (auto simp: zip_Cons1 split: nat.splits list.splits)

lemma splice1_update:
  "splice1 (int k) (xs[k := x]) = splice1 (int k) xs"
  by (cases "k < length xs") (simp_all add: splice1_def Let_def min_def list_update_beyond)

lemma with_balance_fields:
  "pool_address (with_balance p k b) = pool_address p"
  "pool_tokensList (with_balance p k b) = pool_tokensList p"
  "parsedAmp (with_balance p k b) = parsedAmp p"
  "parsedTotalShares (with_balance p k b) = parsedTotalShares p"
  "parsedDecimals (with_balance p k b) = parsedDecimals p"
  "parsedPriceRates (with_balance p k b) = parsedPriceRates p"
  by (simp_all add: with_balance_def parsedAmp_def parsedTotalShares_def parsedDecimals_def
      parsedPriceRates_def map_update_same)

lemma with_balance_balances:
  "parsedBalances (with_balance p k b) = (parsedBalances p)[k := b]"
  by (simp add: with_balance_def parsedBalances_def map_update)

lemma upscaled_splice:
  "splice1 (int k) (map f (zip (xs[k := b]) ys)) = splice1 (int k) (map f (zip xs ys))"
  by (simp add: zip_update_left map_update splice1_update)

lemma step_100_100: "invariant_step 100000 [100, 100] True 200 = Inr 200"
  by (simp add: step_eval)

lemma calc_100_100: "calculateInvariant 100000 [100, 100] True = Inr 200"
  by (simp add: calculateInvariant_def BZERO_def eval_nat_numeral step_100_100)

lemma spot_100_100:
  "bptSpotPrice 100000 [100, 100] 200 0 = Inr ONE"
  "bptSpotPrice 100000 [100, 100] 200 (Suc 0) = Inr ONE"
  by (simp_all add: bptSpotPrice_def calc_100_100 bigint_div_def spot_answer_def nth_defined_def
      divUpFixed_def AMP_PRECISION_def BZERO_def BONE_def ONE_def Let_def sdiv_eval)

lemma sf_18: "computeScalingFactor 18 = Inr ONE"
  by (simp add: computeScalingFactor_def bigint_pow_def)

lemma rated_terms_example:
  "rated_term 100000 [100, 100] 200 [ONE, ONE, ONE] [18, 18, 18] [10, 10] 0 = Inr 10"
  "rated_term 100000 [100, 100] 200 [ONE, ONE, ONE] [18, 18, 18] [10, 10] (Suc 0) = Inr 10"
  by (simp_all add: rated_term_def spot_100_100 nth_defined_def sf_18 upscale_def
      mulDownFixed_total, simp_all add: ONE_def sdiv_eval)

lemma example_pool_parsed:
  "parsedDecimals (example_pool b a) = [Some 18, Some 18, Some 18]"
  "parsedPriceRates (example_pool b a) = [Some ONE, Some ONE, Some ONE]"
  "parsedBalances (example_pool b a) = [100, b, 100]"
  "parsedAmp (example_pool b a) = a"
  "parsedTotalShares (example_pool b a) = 200"
  "pool_tokensList (example_pool b a) = [''A'', ''P'', ''B'']"
  "pool_address (example_pool b a) = ''P''"
  by (simp_all add: example_pool_def tok_def parsedDecimals_def parsedPriceRates_def
      parsedBalances_def parsedAmp_def parsedTotalShares_def)

lemma example_bptIndex:
  "findIndex (\<lambda>token. token = ''P'') [''A'', ''P'', ''B''] = 1"
  by simp

lemma phantom_example:
  "StablePhantomPriceImpact_bptZeroPriceImpact (example_pool b (Some 100000)) [10, 10] = Inr 20"
  unfolding StablePhantomPriceImpact_bptZeroPriceImpact_def example_pool_parsed example_bptIndex
  by (simp add: present_def sf_18 traverse_upscale mulDownFixed_total splice1_def Let_def
      rated_terms_example BZERO_def, simp add: ONE_def sdiv_eval rated_terms_example [unfolded ONE_def])

lemma with_balance_example:
  "with_balance (example_pool 5000 a) 1 77 = example_pool 77 a"
  by (simp add: with_balance_def example_pool_def tok_def)

section \<open>The errors a snapshot check can raise\<close>

lemma present_error: "present e x = Inl e' \<Longrightarrow> e' = e"
  by (cases x) (simp_all add: present_def)

lemma traverse_present_error:
  "traverse (present e) xs = Inl e' \<Longrightarrow> e' = e"
proof (induction xs)
  case Nil
  then show ?case by simp
next
  case (Cons x xs)
  show ?case
  proof (cases "present e x")
    case (Inl e'')
    with Cons.prems have "e' = e''" by simp
    with Inl show ?thesis by (auto dest: present_error)
  next
    case (Inr v)
    with Cons.prems have "traverse (present e) xs = Inl e'"
      by (cases "traverse (present e) xs") simp_all
    then show ?thesis by (rule Cons.IH)
  qed
qed

lemma bptZeroPriceImpact_amp_absent:
  assumes "pool_amp p = None"
  shows "\<exists>e. StablePoolPriceImpact_bptZeroPriceImpact p tokenAmounts = Inl e
            \<and> e \<in> {INPUT_LENGTH_MISMATCH, MISSING_DECIMALS, MISSING_PRICE_RATE}"
    and "\<exists>e. MetaStablePoolPriceImpact_bptZeroPriceImpact p tokenAmounts = Inl e
            \<and> e \<in> {INPUT_LENGTH_MISMATCH, MISSING_DECIMALS, MISSING_PRICE_RATE}"
    and "\<exists>e. StablePhantomPriceImpact_bptZeroPriceImpact p tokenAmounts = Inl e
            \<and> e \<in> {INPUT_LENGTH_MISMATCH, MISSING_DECIMALS, MISSING_PRICE_RATE}"
proof -
  have amp: "present MISSING_PRICE_RATE (parsedAmp p) = Inl MISSING_PRICE_RATE"
    using assms by (simp add: present_def parsedAmp_def)
  show "\<exists>e. StablePoolPriceImpact_bptZeroPriceImpact p tokenAmounts = Inl e
            \<and> e \<in> {INPUT_LENGTH_MISMATCH, MISSING_DECIMALS, MISSING_PRICE_RATE}"
    by (cases "traverse (present MISSING_DECIMALS) (parsedDecimals p)")
       (auto simp: StablePoolPriceImpact_bptZeroPriceImpact_def amp
             dest: traverse_present_error)
  show "\<exists>e. MetaStablePoolPriceImpact_bptZeroPriceImpact p tokenAmounts = Inl e
            \<and> e \<in> {INPUT_LENGTH_MISMATCH, MISSING_DECIMALS, MISSING_PRICE_RATE}"
    by (cases "traverse (present MISSING_DECIMALS) (parsedDecimals p)";
        cases "traverse (present MISSING_PRICE_RATE) (parsedPriceRates p)")
       (auto simp: MetaStablePoolPriceImpact_bptZeroPriceImpact_def amp
             dest: traverse_present_error)
  show "\<exists>e. StablePhantomPriceImpact_bptZeroPriceImpact p tokenAmounts = Inl e
            \<and> e \<in> {INPUT_LENGTH_MISMATCH, MISSING_DECIMALS, MISSING_PRICE_RATE}"
    by (cases "traverse (present MISSING_DECIMALS) (parsedDecimals p)";
        cases "traverse (present MISSING_PRICE_RATE) (parsedPriceRates p)")
       (auto simp: StablePhantomPriceImpact_bptZeroPriceImpact_def amp Let_def
             dest: traverse_present_error)
qed

section \<open>The stable invariant solver\<close>

text \<open>
  C1.  For every list of non-negative balances with positive sum \<open>S\<close>, every
  amplification parameter \<open>amp\<close> of at least \<open>AMP_PRECISION\<close> (an amplification of at
  least 1, as the source guarantees) and either rounding flag: the iteration starts at
  \<open>D = S\<close>; if the \<open>k\<close>-th and \<open>(k+1)\<close>-th iterates, \<open>k < 255\<close>, are the first
  consecutive pair that differs by at most one unit, the solver returns the \<open>(k+1)\<close>-th
  iterate; if no two consecutive iterates among the first 255 updates differ by at most one
  unit, it fails with \<open>STABLE_INVARIANT_DIDNT_CONVERGE\<close>; every value it returns is one
  of the first 255 updates, so at most 255 updates are performed; and these are the only
  two outcomes.
\<close>

theorem calculateInvariant_iterates:
  assumes "0 < sum_list balances" and "\<forall>b \<in> set balances. 0 \<le> b"
    and "AMP_PRECISION \<le> amp"
  shows "iterate amp balances roundUp 0 = Inr (sum_list balances)
   \<and> (\<forall>k<255.
        (\<forall>j<k. \<not> within_one (iterate amp balances roundUp j)
                              (iterate amp balances roundUp (Suc j)))
        \<and> within_one (iterate amp balances roundUp k) (iterate amp balances roundUp (Suc k))
        \<longrightarrow> calculateInvariant amp balances roundUp = iterate amp balances roundUp (Suc k))
   \<and> ((\<forall>k<255. \<not> within_one (iterate amp balances roundUp k)
                               (iterate amp balances roundUp (Suc k)))
        \<longrightarrow> calculateInvariant amp balances roundUp = Inl STABLE_INVARIANT_DIDNT_CONVERGE)
   \<and> (\<forall>v. calculateInvariant amp balances roundUp = Inr v
        \<longrightarrow> (\<exists>k<255. iterate amp balances roundUp (Suc k) = Inr v
               \<and> within_one (iterate amp balances roundUp k) (iterate amp balances roundUp (Suc k))))
   \<and> ((\<exists>v. calculateInvariant amp balances roundUp = Inr v)
        \<or> calculateInvariant amp balances roundUp = Inl STABLE_INVARIANT_DIDNT_CONVERGE)"
proof -
  let ?S = "sum_list balances"
  let ?it = "iterate_from amp balances roundUp ?S"
  let ?W = "\<lambda>k. within_one (?it k) (?it (Suc k))"
  have c: "calculateInvariant amp balances roundUp
             = invariant_loop 255 amp balances roundUp ?S"
    using assms(1) by (simp add: calculateInvariant_def BZERO_def)
  have pre: "\<forall>j<k. apart (?it j) (?it (Suc j))" if "\<forall>j<k. \<not> ?W j" for k
    using iterates_prefix [OF assms(2,1,3) assms(1) that] by blast
  have ret: "invariant_loop 255 amp balances roundUp ?S = ?it (Suc k)"
    if "k < 255" and "\<forall>j<k. \<not> ?W j" and "?W k" for k
    using loop_returns [OF that(1) pre [OF that(2)] that(3)] .
  have exh: "invariant_loop 255 amp balances roundUp ?S = Inl STABLE_INVARIANT_DIDNT_CONVERGE"
    if "\<forall>k<255. \<not> ?W k"
    using loop_exhausts [OF pre [OF that]] .
  have val: "\<exists>k<255. ?it (Suc k) = Inr v \<and> ?W k"
    if "invariant_loop 255 amp balances roundUp ?S = Inr v" for v
    using loop_value [OF that] by blast
  have either: "(\<exists>v. invariant_loop 255 amp balances roundUp ?S = Inr v)
        \<or> invariant_loop 255 amp balances roundUp ?S = Inl STABLE_INVARIANT_DIDNT_CONVERGE"
  proof (cases "\<exists>k. k < 255 \<and> ?W k")
    case True
    then obtain k where k: "k < 255 \<and> ?W k" "\<forall>j<k. \<not> (j < 255 \<and> ?W j)"
      using exists_least_iff [of "\<lambda>k. k < 255 \<and> ?W k"] by blast
    then have "\<forall>j<k. \<not> ?W j" by auto
    with k(1) have "invariant_loop 255 amp balances roundUp ?S = ?it (Suc k)"
      using ret by blast
    moreover from k(1) obtain v where "?it (Suc k) = Inr v"
      using within_one_Inr by blast
    ultimately show ?thesis by simp
  next
    case False
    then have "\<forall>k<255. \<not> ?W k" by blast
    then show ?thesis using exh by blast
  qed
  show ?thesis
    unfolding c iterate_iterate_from
    using ret exh val either
    by (intro conjI allI impI) (simp, blast, blast, blast, blast)
qed

text \<open>
  Instances of the theorem: a pool that converges at the second update, and a pool whose
  iterates alternate between 5 and 3 for all 255 updates.
\<close>

theorem calculateInvariant_iterates_witness:
  "calculateInvariant 5000 [100, 300] True = Inr 390
   \<and> calculateInvariant 1001 [1, 1, 3] False = Inl STABLE_INVARIANT_DIDNT_CONVERGE
   \<and> (\<exists>k<255. iterate 5000 [100, 300] True (Suc k) = Inr 390)"
proof -
  have it: "iterate 5000 [100, 300] True (Suc (Suc 0)) = Inr 390"
    by (simp add: steps_100_300)
  have a: "\<forall>j<Suc 0. \<not> within_one (iterate 5000 [100, 300] True j)
                                 (iterate 5000 [100, 300] True (Suc j))"
    by (simp add: steps_100_300 within_one_def)
  have w: "within_one (iterate 5000 [100, 300] True (Suc 0))
             (iterate 5000 [100, 300] True (Suc (Suc 0)))"
    by (simp add: steps_100_300 within_one_def)
  have p1: "(0::int) < sum_list [100, 300]" by simp
  have n1: "\<forall>b \<in> set [100, 300 :: int]. 0 \<le> b" by simp
  have m1: "AMP_PRECISION \<le> 5000" by (simp add: AMP_PRECISION_def)
  note T1 = calculateInvariant_iterates [OF p1 n1 m1, of True]
  have k1: "Suc 0 < 255" by simp
  have "calculateInvariant 5000 [100, 300] True = iterate 5000 [100, 300] True (Suc (Suc 0))"
    using T1 [THEN conjunct2, THEN conjunct1, rule_format, of "Suc 0"] k1 a w by blast
  then have r1: "calculateInvariant 5000 [100, 300] True = Inr 390"
    by (simp only: it)
  have r3: "\<exists>k<255. iterate 5000 [100, 300] True (Suc k) = Inr 390"
    using T1 [THEN conjunct2, THEN conjunct2, THEN conjunct2, THEN conjunct1, rule_format, OF r1]
    by blast
  have p2: "(0::int) < sum_list [1, 1, 3]" by simp
  have n2: "\<forall>b \<in> set [1, 1, 3 :: int]. 0 \<le> b" by simp
  have m2: "AMP_PRECISION \<le> 1001" by (simp add: AMP_PRECISION_def)
  have r2: "calculateInvariant 1001 [1, 1, 3] False = Inl STABLE_INVARIANT_DIDNT_CONVERGE"
    using calculateInvariant_iterates [OF p2 n2 m2, of False,
        THEN conjunct2, THEN conjunct2, THEN conjunct1] far_1_1_3
    by blast
  show ?thesis using r1 r2 r3 by simp
qed

text \<open>
  C2 (as amended).  In one update of the solver called with rounding direction \<open>r\<close>, the
  divisions of the \<open>P_D\<close> loop, the division of the numerator term by \<open>AMP_PRECISION\<close>
  and the final division are called with \<open>r\<close>, and the division of the denominator term by
  \<open>AMP_PRECISION\<close> is called with the opposite direction \<open>\<not> r\<close>: the directions passed,
  in call order, are \<open>numTokens - 1\<close> times \<open>r\<close>, then \<open>r\<close>, \<open>\<not> r\<close>, \<open>r\<close> (only the
  first \<open>r\<close> when the current iterate is 0 and there are at least two tokens, since the
  first division then throws).  The logged update computes the result of the update.
\<close>

theorem invariant_step_division_directions:
  assumes "balances \<noteq> []"
  shows "snd (invariant_step_logged amp balances roundUp D) = invariant_step amp balances roundUp D
   \<and> fst (invariant_step_logged amp balances roundUp D) =
       (if D = 0 \<and> 2 \<le> length balances then [roundUp]
        else replicate (length balances - 1) roundUp @ [roundUp, \<not> roundUp, roundUp])"
proof -
  from assms obtain b0 rest where bs: "balances = b0 # rest" by (cases balances) simp_all
  let ?n = "int (length balances)"
  let ?m = "calc_P_D_logged ?n D roundUp rest (b0 * ?n)"
  let ?f = "invariant_update_logged ?n (amp * ?n) (sum_list balances) roundUp D"
  have step: "invariant_step_logged amp balances roundUp D = andThenL ?m ?f"
    by (simp add: invariant_step_logged_def bs)
  have "snd (andThenL ?m ?f) = invariant_step amp balances roundUp D"
    by (simp add: snd_andThenL calc_P_D_logged_snd invariant_update_logged_snd
        invariant_step_def bs)
  then have s: "snd (invariant_step_logged amp balances roundUp D)
        = invariant_step amp balances roundUp D"
    by (simp only: step)
  have f: "fst (andThenL ?m ?f) =
       (if D = 0 \<and> 2 \<le> length balances then [roundUp]
        else replicate (length balances - 1) roundUp @ [roundUp, \<not> roundUp, roundUp])"
  proof (cases "D = 0 \<and> 2 \<le> length balances")
    case True
    then obtain b1 rest' where r: "rest = b1 # rest'" using bs by (cases rest) simp_all
    have "snd ?m = Inl ZERO_DIVISION"
      using True by (simp only: calc_P_D_logged_snd r calc_P_D_zero)
    then have "fst (andThenL ?m ?f) = fst ?m" by (rule fst_andThenL_Inl)
    also have "\<dots> = [roundUp]"
      using True by (simp only: r calc_P_D_logged_fst_zero)
    finally show ?thesis using True by simp
  next
    case False
    have "\<exists>P'. snd ?m = Inr P' \<and> fst ?m = replicate (length rest) roundUp"
    proof (cases "D = 0")
      case True
      with False bs have "rest = []" by (cases rest) simp_all
      then show ?thesis by (simp add: unlogged_def)
    next
      case False
      then show ?thesis
        using calc_P_D_defined [OF False, of ?n roundUp rest "b0 * ?n"]
        by (simp add: calc_P_D_logged_snd calc_P_D_logged_fst)
    qed
    then obtain P' where P': "snd ?m = Inr P'" and l: "fst ?m = replicate (length rest) roundUp"
      by blast
    have "fst (andThenL ?m ?f) = fst ?m @ fst (?f P')" using P' by (rule fst_andThenL_Inr)
    then show ?thesis using False l bs by (simp add: invariant_update_logged_fst)
  qed
  show ?thesis using s f by (simp only: step) 
qed

text \<open>An instance of the theorem, with two tokens and rounding up.\<close>

theorem invariant_step_division_directions_witness:
  "fst (invariant_step_logged 1001 [1, 1] True 2) = [True, True, False, True]
   \<and> snd (invariant_step_logged 1001 [1, 1] True 2) = invariant_step 1001 [1, 1] True 2"
  using invariant_step_division_directions [of "[1, 1]" 1001 True 2] by simp

text \<open>
  The directions are mixed: called with rounding up, the update divides the denominator
  term rounding down.
\<close>

theorem invariant_step_mixed_directions_counterexample:
  "invariant_step_logged 1001 [1, 1] True 2 = ([True, True, False, True], Inr 3)"
  by (simp add: logged_eval)

section \<open>Missing data in the price-impact methods\<close>

text \<open>
  C3.  What the three \<open>bptZeroPriceImpact\<close> methods do on a snapshot whose \<open>amp\<close> is
  absent and whose other fields are present: each throws \<open>MISSING_PRICE_RATE\<close>, not
  \<open>MISSING_AMP\<close>.
\<close>

theorem bptZeroPriceImpact_missing_amp:
  "StablePoolPriceImpact_bptZeroPriceImpact (example_pool 100 None) [10, 10, 10]
     = Inl MISSING_PRICE_RATE
   \<and> MetaStablePoolPriceImpact_bptZeroPriceImpact (example_pool 100 None) [10, 10, 10]
     = Inl MISSING_PRICE_RATE
   \<and> StablePhantomPriceImpact_bptZeroPriceImpact (example_pool 100 None) [10, 10]
     = Inl MISSING_PRICE_RATE"
  by (simp add: StablePoolPriceImpact_bptZeroPriceImpact_def
      MetaStablePoolPriceImpact_bptZeroPriceImpact_def
      StablePhantomPriceImpact_bptZeroPriceImpact_def example_pool_def tok_def
      parsedDecimals_def parsedPriceRates_def parsedAmp_def present_def)

section \<open>The power functions\<close>

text \<open>
  C4 (as amended).  Whenever \<open>pow x y\<close> returns a value \<open>raw\<close>, \<open>powUpFixed x y\<close>
  returns \<open>raw + (m + 1)\<close>, where \<open>m = mulUpFixed raw MAX_POW_RELATIVE_ERROR\<close> is
  \<open>raw * MAX_POW_RELATIVE_ERROR / ONE\<close> rounded up (not truncated), with
  \<open>MAX_POW_RELATIVE_ERROR = 10000\<close>; the result is strictly greater than \<open>raw\<close>.
\<close>

theorem powUpFixed_margin:
  assumes "LogExpMath_pow x y = Some (Inr raw)"
  shows "\<exists>m. mulUpFixed raw MAX_POW_RELATIVE_ERROR = Inr m
           \<and> m = (raw * MAX_POW_RELATIVE_ERROR + (ONE - 1)) div ONE
           \<and> MAX_POW_RELATIVE_ERROR = 10000
           \<and> powUpFixed x y = Some (Inr (raw + (m + 1)))
           \<and> raw < raw + (m + 1)"
proof -
  have nn: "0 \<le> raw" using assms by (rule LogExpMath_pow_nonneg)
  define m where "m = (raw * MAX_POW_RELATIVE_ERROR + (ONE - 1)) div ONE"
  have mul: "mulUpFixed raw MAX_POW_RELATIVE_ERROR = Inr m"
    unfolding m_def using nn
    by (intro mulUpFixed_nonneg_ceiling) (simp_all add: MAX_POW_RELATIVE_ERROR_def)
  have "0 \<le> raw * MAX_POW_RELATIVE_ERROR + (ONE - 1)"
    using nn by (simp add: MAX_POW_RELATIVE_ERROR_def ONE_def)
  then have mpos: "0 \<le> m"
    unfolding m_def by (simp add: pos_imp_zdiv_nonneg_iff ONE_def)
  have up: "powUpFixed x y = Some (Inr (raw + (m + 1)))"
    by (simp add: powUpFixed_def andThenO_def assms mul SolidityMaths_add_total BONE_def)
  show ?thesis
    using mul up mpos by (simp add: m_def MAX_POW_RELATIVE_ERROR_def)
qed

text \<open>An instance of the theorem: 1.05 to the power 0.5.\<close>

theorem powUpFixed_margin_witness:
  "\<exists>m. mulUpFixed 1024695076595959837 MAX_POW_RELATIVE_ERROR = Inr m
      \<and> powUpFixed 1050000000000000000 500000000000000000
          = Some (Inr (1024695076595959837 + (m + 1)))
      \<and> (1024695076595959837::int) < 1024695076595959837 + (m + 1)"
  using powUpFixed_margin [OF LogExpMath_pow_example] by blast

text \<open>
  With the product truncated, as the formula \<open>raw * MAX_POW_RELATIVE_ERROR / ONE + 1\<close>
  reads in integer arithmetic, the margin is one unit short: for 1.05 to the power 0.5 the
  formula gives \<open>raw + 10247\<close> and \<open>powUpFixed\<close> returns \<open>raw + 10248\<close>.
\<close>

theorem powUpFixed_truncated_margin_counterexample:
  "LogExpMath_pow 1050000000000000000 500000000000000000 = Some (Inr 1024695076595959837)
   \<and> powUpFixed 1050000000000000000 500000000000000000 = Some (Inr 1024695076595970085)
   \<and> 1024695076595959837 + (1024695076595959837 * MAX_POW_RELATIVE_ERROR sdiv ONE + 1)
       = (1024695076595970084::int)"
  using LogExpMath_pow_example powUpFixed_example
  by (simp add: MAX_POW_RELATIVE_ERROR_def ONE_def sdiv_nonneg_eq_div)

section \<open>The fixed-point divisions\<close>

text \<open>
  C5.  For all non-negative integers \<open>a\<close> and \<open>b\<close> with \<open>b \<noteq> 0\<close>, both fixed-point
  divisions return a value, \<open>divUpFixed a b\<close> is at least \<open>divDownFixed a b\<close>, and the two
  differ by at most one unit.
\<close>

theorem divUpFixed_divDownFixed_gap:
  assumes "0 \<le> a" and "0 \<le> b" and "b \<noteq> 0"
  shows "\<exists>u d. divUpFixed a b = Inr u \<and> divDownFixed a b = Inr d \<and> d \<le> u \<and> u - d \<le> 1"
proof (cases "a = 0")
  case True
  with assms show ?thesis
    by (simp add: divUpFixed_def divDownFixed_def BZERO_def)
next
  case False
  with assms have apos: "0 < a" and bpos: "0 < b" by simp_all
  have infl: "(a * ONE) sdiv a = ONE"
    using False by (rule sdiv_mult_self_left)
  have n1: "0 \<le> a * ONE - 1" using apos by (simp add: ONE_def)
  have n2: "0 \<le> a * ONE" using apos by (simp add: ONE_def)
  have up: "divUpFixed a b = Inr ((a * ONE - 1) div b + 1)"
    using False bpos infl n1
    by (simp add: divUpFixed_def BZERO_def BONE_def Let_def sdiv_nonneg_eq_div)
  have down: "divDownFixed a b = Inr ((a * ONE) div b)"
    using False bpos n2
    by (simp add: divDownFixed_def BZERO_def Let_def sdiv_nonneg_eq_div)
  have lo: "(a * ONE) div b \<le> (a * ONE - 1) div b + 1"
  proof -
    have "(a * ONE) div b = ((a * ONE - 1) + 1) div b" by simp
    also have "\<dots> \<le> (a * ONE - 1) div b + 1"
      using bpos n1 by (smt (verit) div_add_self2 zdiv_mono1 mult.commute
          less_le_not_le zdiv_mono2 div_by_1)
    finally show ?thesis .
  qed
  have hi: "(a * ONE - 1) div b \<le> (a * ONE) div b"
    using bpos by (intro zdiv_mono1) simp_all
  show ?thesis using up down lo hi by simp
qed

theorem divUpFixed_divDownFixed_gap_witness:
  "\<exists>u d. divUpFixed 1 3 = Inr u \<and> divDownFixed 1 3 = Inr d \<and> d \<le> u \<and> u - d \<le> 1"
  using divUpFixed_divDownFixed_gap [of 1 3] by simp

text \<open>
  C9.  \<open>divUpFixed\<close> never fails with \<open>DIV_INTERNAL\<close>: over unbounded integers the
  check \<open>(a * ONE) / a = ONE\<close> holds for every \<open>a \<noteq> 0\<close>, so the only failure of
  \<open>divUpFixed\<close> is \<open>ZERO_DIVISION\<close>, raised exactly when \<open>b = 0\<close>.
\<close>

theorem divUpFixed_never_DIV_INTERNAL:
  "divUpFixed a b \<noteq> Inl DIV_INTERNAL
   \<and> (a \<noteq> 0 \<longrightarrow> (a * ONE) sdiv a = ONE)
   \<and> (divUpFixed a b = Inl e \<longleftrightarrow> b = 0 \<and> e = ZERO_DIVISION)"
  by (auto simp: divUpFixed_def BZERO_def Let_def sdiv_mult_self_left)

theorem divUpFixed_never_DIV_INTERNAL_witness:
  "divUpFixed (-7) 2 \<noteq> Inl DIV_INTERNAL
   \<and> ((-7) * ONE) sdiv (-7) = ONE
   \<and> divUpFixed (-7) 0 = Inl ZERO_DIVISION"
  using divUpFixed_never_DIV_INTERNAL [of "-7" 2 ZERO_DIVISION]
        divUpFixed_never_DIV_INTERNAL [of "-7" 0 ZERO_DIVISION]
  by simp

section \<open>Boundary values of the power function\<close>

text \<open>
  C6.  \<open>pow x 0 = ONE\<close> for every \<open>x > 0\<close>; \<open>pow 0 y = 0\<close> for every \<open>y > 0\<close>; and
  \<open>pow ONE y = ONE\<close> for every \<open>y\<close> that passes the bound check of the exponent
  (\<open>y < MILD_EXPONENT_BOUND\<close>).
\<close>

theorem pow_boundary_identities:
  "(0 < x \<longrightarrow> LogExpMath_pow x 0 = Some (Inr ONE))
   \<and> (0 < y \<longrightarrow> LogExpMath_pow 0 y = Some (Inr 0))
   \<and> (y < MILD_EXPONENT_BOUND \<longrightarrow> LogExpMath_pow ONE y = Some (Inr ONE))"
  by (simp add: pow_zero pow_ONE) (simp add: LogExpMath_pow_def BZERO_def)

theorem pow_boundary_identities_witness:
  "LogExpMath_pow 2000000000000000000 0 = Some (Inr ONE)
   \<and> LogExpMath_pow 0 500000000000000000 = Some (Inr 0)
   \<and> LogExpMath_pow ONE 3000000000000000000 = Some (Inr ONE)"
proof -
  have b: "(3000000000000000000::int) < MILD_EXPONENT_BOUND"
    by (simp add: MILD_EXPONENT_BOUND_def ONE_20_def sdiv_nonneg_eq_div)
  show ?thesis
    using pow_boundary_identities [of 2000000000000000000 500000000000000000]
          pow_boundary_identities [of 1 3000000000000000000] b
    by simp
qed

section \<open>The price impact of phantom-stable pools\<close>

text \<open>
  C7.  For a phantom-stable pool, \<open>bptZeroPriceImpact\<close> fails with
  \<open>INPUT_LENGTH_MISMATCH\<close> whenever the number of token amounts differs from the length of
  the pool's token list minus one; and when the pool's own address is found at position
  \<open>k\<close> of the token list, the balance of the \<open>k\<close>-th token does not take part in the
  computation: replacing it by any other balance leaves the result unchanged.
\<close>

theorem phantom_bptZeroPriceImpact_excludes_bpt:
  "(int (length tokenAmounts) \<noteq> int (length (pool_tokensList p)) - 1
      \<longrightarrow> StablePhantomPriceImpact_bptZeroPriceImpact p tokenAmounts = Inl INPUT_LENGTH_MISMATCH)
   \<and> (findIndex (\<lambda>token. token = pool_address p) (pool_tokensList p) = int k
      \<longrightarrow> StablePhantomPriceImpact_bptZeroPriceImpact (with_balance p k b) tokenAmounts
          = StablePhantomPriceImpact_bptZeroPriceImpact p tokenAmounts)"
proof (intro conjI impI)
  assume "int (length tokenAmounts) \<noteq> int (length (pool_tokensList p)) - 1"
  then show "StablePhantomPriceImpact_bptZeroPriceImpact p tokenAmounts = Inl INPUT_LENGTH_MISMATCH"
    by (simp add: StablePhantomPriceImpact_bptZeroPriceImpact_def)
next
  assume k: "findIndex (\<lambda>token. token = pool_address p) (pool_tokensList p) = int k"
  show "StablePhantomPriceImpact_bptZeroPriceImpact (with_balance p k b) tokenAmounts
          = StablePhantomPriceImpact_bptZeroPriceImpact p tokenAmounts"
    unfolding StablePhantomPriceImpact_bptZeroPriceImpact_def
    by (simp only: with_balance_fields with_balance_balances k traverse_upscale andThen_Inr
        Let_def upscaled_splice)
qed

text \<open>
  An instance: three amounts for a pool of three tokens are rejected, and with two amounts
  the result is the same value for two different balances of the pool's own token.
\<close>

theorem phantom_bptZeroPriceImpact_excludes_bpt_witness:
  "StablePhantomPriceImpact_bptZeroPriceImpact (example_pool 5000 (Some 100000)) [10, 10, 10]
     = Inl INPUT_LENGTH_MISMATCH
   \<and> StablePhantomPriceImpact_bptZeroPriceImpact (example_pool 77 (Some 100000)) [10, 10]
     = StablePhantomPriceImpact_bptZeroPriceImpact (example_pool 5000 (Some 100000)) [10, 10]
   \<and> StablePhantomPriceImpact_bptZeroPriceImpact (example_pool 5000 (Some 100000)) [10, 10]
     = Inr 20"
proof -
  have len: "int (length [10, 10, 10 :: int])
      \<noteq> int (length (pool_tokensList (example_pool 5000 (Some 100000)))) - 1"
    by (simp add: example_pool_parsed)
  have idx: "findIndex (\<lambda>token. token = pool_address (example_pool 5000 (Some 100000)))
      (pool_tokensList (example_pool 5000 (Some 100000))) = int 1"
    by (simp add: example_pool_parsed)
  have a: "StablePhantomPriceImpact_bptZeroPriceImpact (example_pool 5000 (Some 100000)) [10, 10, 10]
     = Inl INPUT_LENGTH_MISMATCH"
    using phantom_bptZeroPriceImpact_excludes_bpt
      [of "[10, 10, 10]" "example_pool 5000 (Some 100000)" 1 77] len by blast
  have b: "StablePhantomPriceImpact_bptZeroPriceImpact
             (with_balance (example_pool 5000 (Some 100000)) 1 77) [10, 10]
     = StablePhantomPriceImpact_bptZeroPriceImpact (example_pool 5000 (Some 100000)) [10, 10]"
    using phantom_bptZeroPriceImpact_excludes_bpt
      [of "[10, 10]" "example_pool 5000 (Some 100000)" 1 77] idx by blast
  show ?thesis using a b by (simp add: with_balance_example phantom_example)
qed

section \<open>The scaling factor\<close>

text \<open>
  C8.  For token decimals \<open>d > 18\<close> the scaling factor computation fails (the BigInt
  power with the negative exponent \<open>18 - d\<close> throws), so no value is returned; a value is
  returned exactly when \<open>d \<le> 18\<close>, and it is \<open>ONE * 10 ^ (18 - d)\<close>.
\<close>

theorem computeScalingFactor_decimals:
  "(18 < d \<longrightarrow> computeScalingFactor d = Inl RangeError)
   \<and> (d \<le> 18 \<longrightarrow> computeScalingFactor d = Inr (ONE * 10 ^ nat (18 - d)))
   \<and> ((\<exists>v. computeScalingFactor d = Inr v) \<longleftrightarrow> d \<le> 18)"
  by (auto simp: computeScalingFactor_def bigint_pow_def Let_def)

theorem computeScalingFactor_decimals_witness:
  "computeScalingFactor 19 = Inl RangeError
   \<and> computeScalingFactor 6 = Inr (ONE * 10 ^ 12)"
  using computeScalingFactor_decimals [of 19] computeScalingFactor_decimals [of 6]
  by simp

section \<open>Zero exponent\<close>

text \<open>
  C10.  \<open>pow x 0\<close> returns \<open>ONE\<close> for every \<open>x\<close> whatsoever, zero, negative or beyond
  the bound on \<open>x\<close>: the test \<open>y = 0\<close> comes first, so no bounds error is raised.
\<close>

theorem pow_zero_exponent_any_base:
  "LogExpMath_pow x 0 = Some (Inr ONE)"
  by (rule pow_zero)

end
